theory Spec2Isabelle
  imports Complex_Main "HOL-Library.Multiset"
begin

section \<open>Numbers, arrays and errors\<close>

text \<open>
  The program computes with NumPy arrays of IEEE doubles. The model computes with
  \<^typ>\<open>real\<close>: every theorem below is about the exact arithmetic that the floating-point
  operations approximate, and "equal to floating-point tolerance" in the specification is
  equality here. A one-dimensional array is a list, a two-dimensional array a list of rows
  (all rows of one length, as in an \<open>ndarray\<close>).

  NumPy does not raise on a division by zero or on the median of an empty selection: the
  entry becomes \<open>nan\<close> (or \<open>inf\<close>) and the program carries on. An entry that can be such a
  value has type \<open>real option\<close>, and \<open>None\<close> is "not a finite number".

  A Python exception is a value of \<open>error\<close>, and a function that can raise returns
  \<open>error + 'a\<close>.
\<close>

type_synonym npfloat = "real option"

datatype error =
    IndexError
  | ValueError string
  | UnboundLocalError
  | MaskError
  | KeyError string
  | NameError
  | FileNotFoundError
  | SameFileError
  | OSError
  | LinAlgError

definition msg_not_uniform :: string where
  "msg_not_uniform = ''The frequency steps are not uniform! Check out!''"

definition msg_broadcast :: string where
  "msg_broadcast = ''operands could not be broadcast together''"

definition msg_zero_size :: string where
  "msg_zero_size = ''zero-size array to reduction operation minimum which has no identity''"

definition msg_empty_argmin :: string where
  "msg_empty_argmin = ''attempt to get argmin of an empty sequence''"

definition np_div :: "real \<Rightarrow> real \<Rightarrow> npfloat" where
  "np_div a b = (if b = 0 then None else Some (a / b))"

definition ncols :: "'a list list \<Rightarrow> nat" where
  "ncols rows = (case rows of [] \<Rightarrow> 0 | r # _ \<Rightarrow> length r)"

definition column :: "'a list list \<Rightarrow> nat \<Rightarrow> 'a list" where
  "column rows j = map (\<lambda>r. r ! j) rows"

definition col_sums :: "nat \<Rightarrow> real list list \<Rightarrow> real list" where
  "col_sums m rows = map (\<lambda>j. sum_list (column rows j)) [0..<m]"

section \<open>Central frequency and bandwidth\<close>

text \<open>
  \<open>get_central_nu_bandwidth(nu, data)\<close>, lines 130 to 154 of \<open>bandwidth.py\<close>.

  \<open>nu_steps nu\<close> is \<open>nu[1:] - nu[:-1]\<close>. Its element \<open>[0]\<close> is an argument of
  \<open>np.allclose\<close>, so an axis of fewer than two frequencies raises \<open>IndexError\<close> before
  anything is compared. \<open>np.allclose(a, b)\<close> holds when \<open>|a - b| \<le> atol + rtol * |b|\<close> for
  every entry, with the defaults \<open>rtol = 1e-5\<close> and \<open>atol = 1e-8\<close>; it returns a Python
  \<open>bool\<close>, so the test \<open>is False\<close> succeeds exactly when it does not hold.
\<close>

definition nu_steps :: "real list \<Rightarrow> real list" where
  "nu_steps nu = map2 (-) (tl nu) (butlast nu)"

definition rtol :: real where
  "rtol = 1 / 10 ^ 5"

definition atol :: real where
  "atol = 1 / 10 ^ 8"

definition np_isclose :: "real \<Rightarrow> real \<Rightarrow> bool" where
  "np_isclose a b = (\<bar>a - b\<bar> \<le> atol + rtol * \<bar>b\<bar>)"

definition np_allclose :: "real list \<Rightarrow> real \<Rightarrow> bool" where
  "np_allclose as b = list_all (\<lambda>a. np_isclose a b) as"

text \<open>
  The argument \<open>data\<close> is a one-dimensional array (one detector) or a matrix with one row
  per frequency. The function returns two scalars or two arrays, by the shape of its input.
\<close>

datatype ndarray = Arr1 "real list" | Arr2 "real list list"

datatype result = Scalar npfloat | Vector "npfloat list"

text \<open>
  \<open>data * nu[..., None]\<close> for a matrix \<open>data\<close> of shape \<open>(N, M)\<close> and the column \<open>nu\<close> of
  shape \<open>(K, 1)\<close>. Here \<open>K \<ge> 2\<close> (the axis has a first difference), so broadcasting
  succeeds when \<open>N = K\<close>, and when \<open>N = 1\<close> (the single row is repeated for every frequency).
\<close>

definition times_nu :: "real list list \<Rightarrow> real list \<Rightarrow> error + real list list" where
  "times_nu rows nu =
     (if length rows = length nu then Inr (map2 (\<lambda>r v. map (\<lambda>d. d * v) r) rows nu)
      else if length rows = 1 then Inr (map (\<lambda>v. map (\<lambda>d. d * v) (hd rows)) nu)
      else Inl (ValueError msg_broadcast))"

text \<open>
  Lines 148 to 154 for a matrix of shape \<open>(N, m)\<close> that line 147 left as it was, or for
  the column \<open>(N, 1)\<close> that line 147 made of a one-dimensional array.
\<close>

definition moments :: "real list \<Rightarrow> real \<Rightarrow> real list list \<Rightarrow> nat \<Rightarrow> error + (result \<times> result)" where
  "moments nu step rows m =
     (case times_nu rows nu of
        Inl e \<Rightarrow> Inl e
      | Inr weighted \<Rightarrow>
          let total = col_sums m rows;
              squares = col_sums m (map (map (\<lambda>d. d ^ 2)) rows);
              central_nu = map2 np_div (col_sums m weighted) total;
              bandwidth = map2 (\<lambda>s q. np_div (s ^ 2 * step) q) total squares
          in if m = 1 then Inr (Scalar (hd central_nu), Scalar (hd bandwidth))
             else Inr (Vector central_nu, Vector bandwidth))"

text \<open>
  A square matrix \<open>(N, N)\<close> also passes the test of line 146 and becomes \<open>(N, N, 1)\<close>.
  Against \<open>nu\<close> of shape \<open>(K, 1)\<close> the frequencies then run along the second axis (the
  detectors): broadcasting needs \<open>N = K\<close> or \<open>N = 1\<close>, the sums over the first axis have
  shape \<open>(N, 1)\<close> (or \<open>(K, 1)\<close> and \<open>(1, 1)\<close>), the last dimension is 1, and line 153 returns
  the first rows: two arrays of one element, computed from the first column alone.
\<close>

definition moments_square :: "real list \<Rightarrow> real \<Rightarrow> real list list \<Rightarrow> error + (result \<times> result)" where
  "moments_square nu step rows =
     (if length rows = length nu \<or> length rows = 1 then
        let total = sum_list (column rows 0);
            squares = sum_list (map (\<lambda>d. d ^ 2) (column rows 0));
            weighted = sum_list (map (\<lambda>d. d * hd nu) (column rows 0))
        in Inr (Vector [np_div weighted total], Vector [np_div (total ^ 2 * step) squares])
      else Inl (ValueError msg_broadcast))"

definition get_central_nu_bandwidth :: "real list \<Rightarrow> ndarray \<Rightarrow> error + (result \<times> result)" where
  "get_central_nu_bandwidth nu data =
     (if nu_steps nu = [] then Inl IndexError
      else if \<not> np_allclose (nu_steps nu) (hd (nu_steps nu)) then Inl (ValueError msg_not_uniform)
      else
        let step = hd (nu_steps nu) in
        (case data of
           Arr1 xs \<Rightarrow> moments nu step (map (\<lambda>x. [x]) xs) 1
         | Arr2 rows \<Rightarrow>
             if ncols rows = length rows then moments_square nu step rows
             else moments nu step rows (ncols rows)))"

text \<open>
  The specification's words for the check: successive differences are uniform when each
  equals the first within the tolerance. An axis of fewer than two frequencies has no two
  differences to compare.
\<close>

definition uniform_steps :: "real list \<Rightarrow> bool" where
  "uniform_steps nu =
     list_all (\<lambda>i. \<bar>(nu ! Suc i - nu ! i) - (nu ! 1 - nu ! 0)\<bar> \<le> atol + rtol * \<bar>nu ! 1 - nu ! 0\<bar>)
       [0..<length nu - 1]"

text \<open>
  The inputs of the rectangular-response property, in the specification's words: a uniform
  grid of \<open>n\<close> frequencies from \<open>nu0\<close> in steps of \<open>delta\<close>, and a power column that is \<open>a\<close>
  on a window of \<open>w\<close> consecutive frequencies, after \<open>s\<close> zeros and before \<open>t\<close> zeros.
\<close>

definition grid :: "real \<Rightarrow> real \<Rightarrow> nat \<Rightarrow> real list" where
  "grid nu0 delta n = map (\<lambda>i. nu0 + delta * real i) [0..<n]"

definition window :: "nat \<Rightarrow> nat \<Rightarrow> nat \<Rightarrow> real \<Rightarrow> real list" where
  "window s w t a = replicate s 0 @ replicate w a @ replicate t 0"

section \<open>Order statistics\<close>

text \<open>
  \<open>np.median\<close> and \<open>np.percentile\<close> of a non-empty one-dimensional array. The median is
  the middle element of the sorted array, or the mean of the two middle elements. The
  percentile (NumPy's default, linear interpolation) of \<open>n\<close> sorted values sits at the
  virtual index \<open>q / 100 * (n - 1)\<close>, between the elements at the floor of that index and
  the next one. Every call in the program passes a constant \<open>q\<close> between 0 and 100.
\<close>

definition median :: "real list \<Rightarrow> real" where
  "median xs =
     (let sorted = sort xs; n = length xs
      in if odd n then sorted ! (n div 2)
         else (sorted ! (n div 2 - 1) + sorted ! (n div 2)) / 2)"

definition percentile :: "real \<Rightarrow> real list \<Rightarrow> real" where
  "percentile q xs =
     (let sorted = sort xs; n = length xs;
          virtual_index = q / 100 * real (n - 1);
          previous = nat \<lfloor>virtual_index\<rfloor>;
          next = min (previous + 1) (n - 1);
          gamma = virtual_index - real previous
      in sorted ! previous + gamma * (sorted ! next - sorted ! previous))"

text \<open>
  On an empty selection NumPy warns and returns \<open>nan\<close>; the standard deviation is the
  population one (\<open>ddof = 0\<close>).
\<close>

definition np_median :: "real list \<Rightarrow> npfloat" where
  "np_median xs = (if xs = [] then None else Some (median xs))"

definition mean :: "real list \<Rightarrow> real" where
  "mean xs = sum_list xs / real (length xs)"

definition std :: "real list \<Rightarrow> real" where
  "std xs = sqrt (mean (map (\<lambda>x. (x - mean xs) ^ 2) xs))"

definition np_std :: "real list \<Rightarrow> npfloat" where
  "np_std xs = (if xs = [] then None else Some (std xs))"

text \<open>
  \<open>np.percentile\<close> of an array that may hold \<open>nan\<close>: \<open>nan\<close> as soon as one entry is \<open>nan\<close>.
\<close>

definition np_percentile :: "real \<Rightarrow> npfloat list \<Rightarrow> npfloat" where
  "np_percentile q xs =
     (case those xs of
        None \<Rightarrow> None
      | Some ys \<Rightarrow> if ys = [] then None else Some (percentile q ys))"

text \<open>
  \<open>np.argmin\<close>: the index of the first occurrence of the minimum; \<open>ValueError\<close> on an
  empty array.
\<close>

definition first_index :: "('a \<Rightarrow> bool) \<Rightarrow> 'a list \<Rightarrow> nat" where
  "first_index P xs = length (takeWhile (\<lambda>x. \<not> P x) xs)"

definition np_argmin :: "real list \<Rightarrow> error + nat" where
  "np_argmin xs =
     (if xs = [] then Inl (ValueError msg_empty_argmin)
      else Inr (first_index (\<lambda>x. x = Min (set xs)) xs))"

section \<open>The blind channel\<close>

text \<open>
  \<open>find_blind_channel(data)\<close>, lines 117 to 127. The percentiles are taken along the first
  axis, one per column. \<open>pss\<close> is assigned only when the index is 0 or 3: for another index
  the \<open>return\<close> reads an unbound local name. A matrix without rows is the matrix of shape
  \<open>(0, 0)\<close> here, on which \<open>np.argmin\<close> raises.
\<close>

definition var_range :: "real list list \<Rightarrow> real list" where
  "var_range data =
     map (\<lambda>j. percentile 95 (column data j) - percentile 5 (column data j)) [0..<ncols data]"

definition find_blind_channel :: "real list list \<Rightarrow> error + (nat \<times> string)" where
  "find_blind_channel data =
     (case np_argmin (var_range data) of
        Inl e \<Rightarrow> Inl e
      | Inr idx_blind \<Rightarrow>
          if idx_blind = 0 then Inr (idx_blind, ''0110'')
          else if idx_blind = 3 then Inr (idx_blind, ''0101'')
          else Inl UnboundLocalError)"

section \<open>Frequency binning\<close>

text \<open>
  \<open>get_frequency_range_and_data(nu, data, std_dev, rej)\<close>, lines 20 to 58. The boolean
  index \<open>nu > 0\<close> needs as many entries as \<open>data\<close> has rows. \<open>np.unique\<close> returns the distinct
  values in ascending order, the index of the first occurrence of each and the number of
  its occurrences. \<open>rej\<close> is a number of samples, a natural number here, so the start
  \<open>j + rej\<close> of the slice is not negative; its stop \<open>j + c - rej\<close> is an integer, and a
  negative stop counts from the end of the array, as in Python. The
  median and the standard deviation are taken along the first axis of the slice, one per
  column of \<open>data\<close>; on an empty slice they are \<open>nan\<close>.

  \<open>filtered_nu\<close> and \<open>filtered_data\<close> are \<open>new_nu_\<close> and \<open>new_data_\<close> of line 47. The third
  component of the result is absent when \<open>std_dev\<close> is false.
\<close>

definition np_unique :: "real list \<Rightarrow> real list \<times> nat list \<times> nat list" where
  "np_unique xs =
     (let values = sort (remdups xs)
      in (values, map (\<lambda>f. first_index (\<lambda>v. v = f) xs) values, map (count_list xs) values))"

definition slice :: "nat \<Rightarrow> int \<Rightarrow> 'a list \<Rightarrow> 'a list" where
  "slice start stop xs =
     (let stop' = (if stop < 0 then max 0 (int (length xs) + stop) else stop)
      in take (nat stop' - start) (drop start xs))"

definition get_frequency_range_and_data ::
  "real list \<Rightarrow> real list list \<Rightarrow> bool \<Rightarrow> nat
     \<Rightarrow> error + real list \<times> npfloat list list \<times> npfloat list list option" where
  "get_frequency_range_and_data nu data std_dev rej =
     (if length nu \<noteq> length data then Inl IndexError
      else
        let filtered_nu = filter (\<lambda>v. v > 0) nu;
            filtered_data = map snd (filter (\<lambda>(v, row). v > 0) (zip nu data));
            (new_nu, idx, count) = np_unique filtered_nu;
            new_data = map2 (\<lambda>j c. map (\<lambda>i. np_median (column (slice (j + rej) (int (j + c) - int rej) filtered_data) i))
                                      [0..<ncols data])
                         idx count;
            new_std_dev = map2 (\<lambda>j c. map (\<lambda>i. case np_std (column (slice (j + rej) (int (j + c) - int rej) filtered_data) i) of
                                                  None \<Rightarrow> None
                                                | Some s \<Rightarrow> Some (s / sqrt (real c)))
                                         [0..<ncols data])
                            idx count
        in Inr (new_nu, new_data, if std_dev then Some new_std_dev else None))"

text \<open>
  The specification's words. The distinct positive frequencies; the samples of one
  frequency, in the order of acquisition; a run without its first and last \<open>rej\<close> samples;
  and the condition that the samples of positive frequency, in order, hold each frequency
  in one contiguous run: from the first occurrence of a frequency on, as many samples as it
  occurs in all are at that frequency.
\<close>

definition frequencies :: "real list \<Rightarrow> real list" where
  "frequencies nu = sort (remdups (filter (\<lambda>v. v > 0) nu))"

definition samples_at :: "real list \<Rightarrow> real list list \<Rightarrow> real \<Rightarrow> real list list" where
  "samples_at nu data f = map snd (filter (\<lambda>(v, row). v = f) (zip nu data))"

definition trimmed :: "nat \<Rightarrow> 'a list \<Rightarrow> 'a list" where
  "trimmed rej xs = take (length xs - 2 * rej) (drop rej xs)"

definition contiguous_runs :: "real list \<Rightarrow> bool" where
  "contiguous_runs xs =
     list_all (\<lambda>f. take (count_list xs f) (drop (first_index (\<lambda>v. v = f) xs) xs)
                    = replicate (count_list xs f) f)
       (remdups xs)"

section \<open>Offset removal\<close>

text \<open>
  \<open>remove_offset(nu, data)\<close>, lines 61 to 114. The two halves are cut at
  \<open>int(len(data) / 2)\<close>; the boolean indices need \<open>nu\<close> and \<open>data\<close> of one length. The
  offset of a half is the median, per detector, of its rows at frequency \<open>-1\<close>.
  \<open>np.min\<close> raises \<open>ValueError\<close> when no frequency is positive.

  \<open>np.polyfit(x, y, 1)\<close> on two points returns the slope and the intercept of the line
  through them. When the two abscissas are equal the fit is rank-deficient: NumPy warns and
  returns the least-squares solution of smallest norm in its scaled unknowns, which for the
  abscissa \<open>x > 0\<close> and the mean ordinate \<open>m\<close> is the slope \<open>m / (2 * x)\<close> and the intercept
  \<open>m / 2\<close>. When a half has no row at \<open>-1\<close> its offsets are \<open>nan\<close> and the fit raises
  \<open>LinAlgError\<close> (on the usual LAPACK builds). The loop of line 108 runs over four
  detectors whatever the width of \<open>data\<close>: \<open>IndexError\<close> on fewer columns, and columns
  beyond the fourth keep an offset of 0.
\<close>

definition np_polyfit1 :: "real \<Rightarrow> real \<Rightarrow> real \<Rightarrow> real \<Rightarrow> real \<times> real" where
  "np_polyfit1 x0 x1 y0 y1 =
     (if x0 \<noteq> x1 then ((y1 - y0) / (x1 - x0), y0 - (y1 - y0) / (x1 - x0) * x0)
      else ((y0 + y1) / 2 / (2 * x0), (y0 + y1) / 2 / 2))"

definition off_rows :: "real list \<Rightarrow> real list list \<Rightarrow> real list list" where
  "off_rows nu data = map snd (filter (\<lambda>(v, row). v = - 1) (zip nu data))"

definition remove_offset :: "real list \<Rightarrow> real list list \<Rightarrow> error + real list list" where
  "remove_offset nu data =
     (if length nu \<noteq> length data then Inl IndexError
      else
        let half = length data div 2;
            firsthalf = off_rows (take half nu) (take half data);
            secondhalf = off_rows (drop half nu) (drop half data)
        in if filter (\<lambda>v. v > 0) nu = [] then Inl (ValueError msg_zero_size)
           else if ncols data = 0 then Inl IndexError
           else if firsthalf = [] \<or> secondhalf = [] then Inl LinAlgError
           else if ncols data < 4 then Inl IndexError
           else
             let x0 = Min (set (filter (\<lambda>v. v > 0) nu));
                 x1 = Max (set nu);
                 line_coeff = (\<lambda>i. np_polyfit1 x0 x1 (median (column firsthalf i))
                                      (median (column secondhalf i)))
             in Inr (map2 (\<lambda>v row. map (\<lambda>(i, d). if i < 4
                                                   then d - (v * fst (line_coeff i) + snd (line_coeff i))
                                                   else d)
                                      (enumerate 0 row))
                       nu data))"

section \<open>The report parameters\<close>

text \<open>
  \<open>build_dict_from_results\<close>, lines 232 to 256. A Python value is a string, a number or a
  dictionary; a dictionary is an association list in insertion order, and an assignment to
  a key replaces the value of a key that is there and appends a new key otherwise.
  \<open>str_nat\<close> is \<open>str\<close> on the indices that \<open>enumerate\<close> produces.
\<close>

definition SAMPLING_FREQUENCY_HZ :: real where
  "SAMPLING_FREQUENCY_HZ = 25"

datatype pyvalue = Str string | Num npfloat | Dict "(string \<times> pyvalue) list"

type_synonym dict = "(string \<times> pyvalue) list"

type_synonym array2 = "npfloat list list"

definition digit_char :: "nat \<Rightarrow> char" where
  "digit_char d = ''0123456789'' ! d"

fun str_nat :: "nat \<Rightarrow> string" where
  "str_nat n = (if n < 10 then [digit_char n] else str_nat (n div 10) @ [digit_char (n mod 10)])"

declare str_nat.simps [simp del]

definition NAMING_CONVENTION :: "string list" where
  "NAMING_CONVENTION = [''PW0/Q1'', ''PW1/U1'', ''PW2/U2'', ''PW3/Q2'']"

definition remove_slash :: "string \<Rightarrow> string" where
  "remove_slash nam = filter (\<lambda>c. c \<noteq> CHR ''/'') nam"

definition status_key :: "nat \<Rightarrow> string" where
  "status_key j = ''PSStatus'' @ ''_'' @ str_nat j"

definition entry_key :: "string \<Rightarrow> nat \<Rightarrow> string" where
  "entry_key pss j = ''ps'' @ pss @ ''_'' @ str_nat j"

text \<open>
  \<open>a[j, i] = v\<close> and \<open>a[j, i]\<close> on a two-dimensional array, for the indices from 0 that
  \<open>enumerate\<close> gives: \<open>IndexError\<close> outside the array. The assignment changes the caller's
  array, so the model returns the arrays with the dictionary.
\<close>

definition set_item :: "array2 \<Rightarrow> nat \<Rightarrow> nat \<Rightarrow> npfloat \<Rightarrow> error + array2" where
  "set_item a j i v =
     (if j < length a \<and> i < length (a ! j) then Inr (a[j := (a ! j)[i := v]])
      else Inl IndexError)"

definition get_item :: "array2 \<Rightarrow> nat \<Rightarrow> nat \<Rightarrow> error + npfloat" where
  "get_item a j i =
     (if j < length a \<and> i < length (a ! j) then Inr (a ! j ! i) else Inl IndexError)"

definition update :: "string \<Rightarrow> pyvalue \<Rightarrow> dict \<Rightarrow> dict" where
  "update k v d =
     (if k \<in> set (map fst d) then map (\<lambda>(k', v'). if k' = k then (k', v) else (k', v')) d
      else d @ [(k, v)])"

text \<open>\<open>results[key][nam] = v\<close>: the outer lookup raises \<open>KeyError\<close> on a missing key.\<close>

definition set_nested :: "dict \<Rightarrow> string \<Rightarrow> string \<Rightarrow> pyvalue \<Rightarrow> error + dict" where
  "set_nested results key nam v =
     (case map_of results key of
        Some (Dict d) \<Rightarrow> Inr (update key (Dict (update nam v d)) results)
      | _ \<Rightarrow> Inl (KeyError key))"

text \<open>Lines 251 to 253: the blind detector of the file's status is set to 0 in both arrays.\<close>

definition is_blind :: "string \<Rightarrow> nat \<Rightarrow> bool" where
  "is_blind pss i = (pss = ''0101'' \<and> i = 3 \<or> pss = ''0110'' \<and> i = 0)"

definition zero_blind :: "string \<Rightarrow> nat \<Rightarrow> nat \<Rightarrow> array2 \<times> array2 \<Rightarrow> error + array2 \<times> array2" where
  "zero_blind pss j i arrays =
     (case arrays of (central, bandwidth) \<Rightarrow>
        if is_blind pss i then
          (case set_item central j i (Some 0) of
             Inl e \<Rightarrow> Inl e
           | Inr central' \<Rightarrow>
               (case set_item bandwidth j i (Some 0) of
                  Inl e \<Rightarrow> Inl e
                | Inr bandwidth' \<Rightarrow> Inr (central', bandwidth')))
        else Inr (central, bandwidth))"

text \<open>The loop of line 249 over the detectors, for the file \<open>j\<close> of status \<open>pss\<close>.\<close>

fun detector_loop ::
  "string \<Rightarrow> nat \<Rightarrow> (nat \<times> string) list \<Rightarrow> dict \<times> array2 \<times> array2 \<Rightarrow> error + dict \<times> array2 \<times> array2" where
  "detector_loop pss j [] state = Inr state"
| "detector_loop pss j ((i, nam) # rest) (results, arrays) =
     (case zero_blind pss j i arrays of
        Inl e \<Rightarrow> Inl e
      | Inr (central, bandwidth) \<Rightarrow>
          (case get_item central j i of
             Inl e \<Rightarrow> Inl e
           | Inr c \<Rightarrow>
               (case get_item bandwidth j i of
                  Inl e \<Rightarrow> Inl e
                | Inr b \<Rightarrow>
                    (case set_nested results (entry_key pss j) (remove_slash nam)
                            (Dict [(''central_nu'', Num c), (''bandwidth'', Num b)]) of
                       Inl e \<Rightarrow> Inl e
                     | Inr results' \<Rightarrow> detector_loop pss j rest (results', central, bandwidth)))))"

text \<open>The loop of line 246 over the files.\<close>

fun file_loop :: "(nat \<times> string) list \<Rightarrow> dict \<times> array2 \<times> array2 \<Rightarrow> error + dict \<times> array2 \<times> array2" where
  "file_loop [] state = Inr state"
| "file_loop ((j, pss) # rest) (results, arrays) =
     (case detector_loop pss j (enumerate 0 NAMING_CONVENTION)
             (update (entry_key pss j) (Dict []) (update (status_key j) (Str pss) results), arrays) of
        Inl e \<Rightarrow> Inl e
      | Inr state \<Rightarrow> file_loop rest state)"

definition build_dict_from_results ::
  "string \<Rightarrow> real \<Rightarrow> string list \<Rightarrow> array2 \<Rightarrow> array2 \<Rightarrow> npfloat \<Rightarrow> npfloat \<Rightarrow> npfloat \<Rightarrow> npfloat
     \<Rightarrow> error + dict \<times> array2 \<times> array2" where
  "build_dict_from_results pol_name duration PSStatus central_nu_det bandwidth_det
       final_central_nu final_central_nu_err final_bandwidth final_bandwidth_err =
     file_loop (enumerate 0 PSStatus)
       ([(''polarimeter_name'', Str pol_name),
         (''title'', Str (''Bandwidth test for polarimeter '' @ pol_name)),
         (''sampling_frequency'', Num (Some SAMPLING_FREQUENCY_HZ)),
         (''test_duration'', Num (Some (duration / 60 / 60))),
         (''final_central_nu'', Num final_central_nu),
         (''final_central_nu_err'', Num final_central_nu_err),
         (''final_bandwidth'', Num final_bandwidth),
         (''final_bandwidth_err'', Num final_bandwidth_err)],
        central_nu_det, bandwidth_det)"

text \<open>
  Reading the mapping, in the specification's words: the entry of file \<open>j\<close> (of status
  \<open>pss\<close>) for the detector named \<open>nam\<close>.
\<close>

definition report_entry :: "dict \<Rightarrow> string \<Rightarrow> nat \<Rightarrow> string \<Rightarrow> pyvalue option" where
  "report_entry results pss j nam =
     (case map_of results (entry_key pss j) of
        Some (Dict d) \<Rightarrow> map_of d nam
      | _ \<Rightarrow> None)"

definition detector_names :: "string list" where
  "detector_names = [''PW0Q1'', ''PW1U1'', ''PW2U2'', ''PW3Q2'']"

text \<open>
  What the assignments do to an array, in the specification's words: 0 at the entry of the
  blind detector of every listed file, every other entry as it was. \<open>zeroed_where\<close> is the
  same relation for any set of entries, entry by entry.
\<close>

definition blind_zeroed :: "string list \<Rightarrow> array2 \<Rightarrow> array2" where
  "blind_zeroed PSStatus a =
     map (\<lambda>(j, row). map (\<lambda>(i, x). if j < length PSStatus \<and> is_blind (PSStatus ! j) i
                                     then Some 0 else x) (enumerate 0 row))
       (enumerate 0 a)"

definition zeroed_where :: "(nat \<Rightarrow> nat \<Rightarrow> bool) \<Rightarrow> array2 \<Rightarrow> array2 \<Rightarrow> bool" where
  "zeroed_where B a a' =
     (length a' = length a \<and> (\<forall>j. length (a' ! j) = length (a ! j))
      \<and> (\<forall>j i. a' ! j ! i = (if B j i then Some 0 else a ! j ! i)))"

section \<open>The analysis of one file\<close>

text \<open>
  \<open>AnalyzeBandTest\<close>, lines 279 to 318, as a function of the frequency array and the power
  array that \<open>load_timestream\<close> returned (the loader is not part of the repository's
  sources). Line 284 reads the first column of \<open>data\<close>, which raises \<open>IndexError\<close> on rows
  without columns; line 290 removes the offset and line 291 bins the result with the
  defaults \<open>std_dev = True\<close> and \<open>rej = 1\<close>.

  The binned spectrum holds \<open>nan\<close> in the row of a frequency whose slice was empty, and
  every step that follows lets a \<open>nan\<close> through without raising. In this section \<open>None\<close> is
  \<open>nan\<close> in the binned spectrum. Line 296 leaves it, since \<open>nan > 0\<close> is false.
\<close>

record band_test =
  duration :: real
  pss :: string
  new_nu :: "real list"
  new_data :: "npfloat list list"
  norm_data :: "npfloat list list"
  central_nu_det :: "(npfloat \<times> bool) list"
  bandwidth_det :: "(npfloat \<times> bool) list"












section \<open>The aggregation over the files\<close>

text \<open>
  \<open>main\<close>, lines 357 to 381, as a function of the frequency axis \<open>nu\<close> of the last file (\<open>new_nu\<close> in \<open>main\<close>) and of the
  list of the normalized matrices that the loop collected. Each of these has the three
  columns that the mask of \<open>AnalyzeBandTest\<close> retained, so a row is a triple here, and the
  combined matrix of line 359 has three columns per file: no row of it is empty.
  \<open>np.column_stack\<close> raises \<open>ValueError\<close> on an empty list and on matrices of different
  heights. The two plots of line 370 compute nothing and are left out.
\<close>

definition msg_no_arrays :: string where
  "msg_no_arrays = ''need at least one array to concatenate''"

definition msg_dimensions :: string where
  "msg_dimensions = ''all the input array dimensions except for the concatenation axis must match exactly''"

definition column_stack :: "(real \<times> real \<times> real) list list \<Rightarrow> error + real list list" where
  "column_stack ms =
     (if ms = [] then Inl (ValueError msg_no_arrays)
      else if list_ex (\<lambda>m. length m \<noteq> length (hd ms)) ms then Inl (ValueError msg_dimensions)
      else Inr (map (\<lambda>i. concat (map (\<lambda>m. case m ! i of (a, b, c) \<Rightarrow> [a, b, c]) ms))
                  [0..<length (hd ms)]))"

text \<open>
  \<open>np.percentile\<close> of what \<open>get_central_nu_bandwidth\<close> returned is taken over all its
  entries.
\<close>

definition result_values :: "result \<Rightarrow> npfloat list" where
  "result_values r = (case r of Scalar x \<Rightarrow> [x] | Vector xs \<Rightarrow> xs)"

definition half_difference :: "npfloat \<Rightarrow> npfloat \<Rightarrow> npfloat" where
  "half_difference hi lo =
     (case (hi, lo) of (Some a, Some b) \<Rightarrow> Some ((a - b) / 2) | _ \<Rightarrow> None)"

record aggregate =
  final_band :: "real list"
  final_band_err :: "real list"
  final_central_nu :: result
  final_bandwidth :: result
  final_central_nu_err :: npfloat
  final_bandwidth_err :: npfloat

definition main_aggregation :: "real list \<Rightarrow> (real \<times> real \<times> real) list list \<Rightarrow> error + aggregate" where
  "main_aggregation nu norm_data_list =
     (case column_stack norm_data_list of
        Inl e \<Rightarrow> Inl e
      | Inr norm_data_All \<Rightarrow>
          (case get_central_nu_bandwidth nu (Arr2 norm_data_All) of
             Inl e \<Rightarrow> Inl e
           | Inr (All_central_nu, All_bandwidth) \<Rightarrow>
               let band = map median norm_data_All;
                   band_err = map (\<lambda>row. (percentile (977 / 10) row - percentile (27 / 10) row) / 2)
                                norm_data_All
               in (case get_central_nu_bandwidth nu (Arr2 (map (\<lambda>x. [x]) band)) of
                     Inl e \<Rightarrow> Inl e
                   | Inr (central, bandwidth) \<Rightarrow>
                       Inr \<lparr>final_band = band,
                            final_band_err = band_err,
                            final_central_nu = central,
                            final_bandwidth = bandwidth,
                            final_central_nu_err =
                              half_difference (np_percentile (977 / 10) (result_values All_central_nu))
                                (np_percentile (27 / 10) (result_values All_central_nu)),
                            final_bandwidth_err =
                              half_difference (np_percentile (977 / 10) (result_values All_bandwidth))
                                (np_percentile (27 / 10) (result_values All_bandwidth))\<rparr>)))"

text \<open>
  The specification's words for the three uncertainties: half the spread between the
  97.7th and the 2.3rd percentile.
\<close>

definition confidence_half_spread :: "real list \<Rightarrow> real" where
  "confidence_half_spread xs = (percentile (977 / 10) xs - percentile (23 / 10) xs) / 2"

section \<open>The report\<close>

text \<open>
  \<open>create_report\<close>, lines 12 to 65 of \<open>reports.py\<close>. The function works on the file system
  and through two libraries that are not part of the repository's sources.

  The file system is a map from paths to contents, with a predicate that says where a file
  can be opened for writing (the directory exists and permits it). The function returns how
  the call ended together with the file system it leaves.

  The libraries are parameters: \<open>render\<close> is the template engine applied to the text of the
  template and to the parameters (\<open>Template(filename=...)\<close> followed by \<open>render_unicode\<close>,
  which may raise), \<open>markdown\<close> is the conversion to HTML, and \<open>format_value\<close> is how
  \<open>str.format\<close> prints the title. \<open>module_dir\<close> is the directory of \<open>reports.py\<close>. The
  calls of \<open>log.info\<close> write to no file and are left out.
\<close>

record filesystem =
  files :: "string \<rightharpoonup> string"
  writable :: "string \<Rightarrow> bool"

record libraries =
  render :: "string \<Rightarrow> dict \<Rightarrow> error + string"
  markdown :: "string \<Rightarrow> string"
  format_value :: "pyvalue \<Rightarrow> string"

datatype outcome = Returned | Raised error

text \<open>\<open>os.path.join\<close> of two components, on POSIX.\<close>

definition os_path_join :: "string \<Rightarrow> string \<Rightarrow> string" where
  "os_path_join a b =
     (if b \<noteq> [] \<and> hd b = CHR ''/'' then b
      else if a = [] \<or> last a = CHR ''/'' then a @ b
      else a @ ''/'' @ b)"

definition read_file :: "filesystem \<Rightarrow> string \<Rightarrow> error + string" where
  "read_file fs path = (case files fs path of None \<Rightarrow> Inl FileNotFoundError | Some text \<Rightarrow> Inr text)"

definition write_file :: "filesystem \<Rightarrow> string \<Rightarrow> string \<Rightarrow> error + filesystem" where
  "write_file fs path text =
     (if writable fs path then Inr (fs\<lparr>files := (files fs)(path \<mapsto> text)\<rparr>) else Inl OSError)"

text \<open>
  \<open>shutil.copyfile\<close>: refuses to copy a file onto itself, opens the source, then the
  destination.
\<close>

definition copyfile :: "filesystem \<Rightarrow> string \<Rightarrow> string \<Rightarrow> error + filesystem" where
  "copyfile fs src dst =
     (if src = dst then Inl SameFileError
      else case read_file fs src of
             Inl e \<Rightarrow> Inl e
           | Inr text \<Rightarrow> write_file fs dst text)"

definition newline :: string where
  "newline = [char_of (10 :: nat)]"

definition html_document :: "string \<Rightarrow> string \<Rightarrow> string" where
  \<open>html_document title contents =
     ''<!DOCTYPE html>'' @ newline @
     ''<html>'' @ newline @
     ''    <head>'' @ newline @
     ''        <title>'' @ title @ ''</title>'' @ newline @
     ''        <meta charset="UTF-8">'' @ newline @
     ''        <link rel="stylesheet" href="report_style.css" type="text/css" />'' @ newline @
     ''    </head>'' @ newline @
     ''    <body>'' @ newline @
     ''        <div id="main">'' @ newline @
     contents @ newline @
     ''        </div>'' @ newline @
     ''    </body>'' @ newline @
     ''</html>'' @ newline\<close>

definition create_report ::
  "libraries \<Rightarrow> string \<Rightarrow> dict \<Rightarrow> string \<Rightarrow> string \<Rightarrow> string \<Rightarrow> string \<Rightarrow> filesystem
     \<Rightarrow> outcome \<times> filesystem" where
  "create_report lib module_dir params md_template_file md_report_file html_report_file
       output_path fs =
     (let template_path = os_path_join module_dir ''template'' in
      case copyfile fs (os_path_join template_path ''report_style.css'')
             (os_path_join output_path ''report_style.css'') of
        Inl e \<Rightarrow> (Raised e, fs)
      | Inr fs1 \<Rightarrow>
          (case read_file fs1 (os_path_join template_path md_template_file) of
             Inl e \<Rightarrow> (Raised e, fs1)
           | Inr report_template \<Rightarrow>
               (case render lib report_template params of
                  Inl e \<Rightarrow> (Raised e, fs1)
                | Inr md_report \<Rightarrow>
                    (case write_file fs1 (os_path_join output_path md_report_file) md_report of
                       Inl e \<Rightarrow> (Raised e, fs1)
                     | Inr fs2 \<Rightarrow>
                         (case map_of params ''title'' of
                            None \<Rightarrow> (Raised (KeyError ''title''), fs2)
                          | Some title \<Rightarrow>
                              (case write_file fs2 (os_path_join output_path html_report_file)
                                      (html_document (format_value lib title)
                                         (markdown lib md_report)) of
                                 Inl e \<Rightarrow> (Raised e, fs2)
                               | Inr fs3 \<Rightarrow> (Returned, fs3)))))))"

text \<open>
  An installation to run the function on: the stylesheet and a template of plain text in
  the template directory, every path writable, a template engine that returns the template
  as it is and a converter that returns its input.
\<close>

definition example_files :: filesystem where
  "example_files =
     \<lparr>files = [''/app/template/report_style.css'' \<mapsto> ''body {}'',
               ''/app/template/bandwidth.md'' \<mapsto> ''# Report''],
      writable = (\<lambda>path. True)\<rparr>"

definition plain_libraries :: libraries where
  "plain_libraries =
     \<lparr>render = (\<lambda>template params. Inr template),
      markdown = (\<lambda>text. text),
      format_value = (\<lambda>v. case v of Str s \<Rightarrow> s | _ \<Rightarrow> [])\<rparr>"

section \<open>Facts about the check of the frequency axis\<close>

lemma length_nu_steps: "length (nu_steps nu) = length nu - 1"
  by (simp add: nu_steps_def)

lemma nu_steps_nth: "i < length nu - 1 \<Longrightarrow> nu_steps nu ! i = nu ! Suc i - nu ! i"
  by (simp add: nu_steps_def nth_tl nth_butlast)

lemma hd_nu_steps: "nu_steps nu \<noteq> [] \<Longrightarrow> hd (nu_steps nu) = nu ! 1 - nu ! 0"
proof -
  assume ne: "nu_steps nu \<noteq> []"
  then have "0 < length nu - 1"
    by (metis length_nu_steps length_greater_0_conv)
  then have "nu_steps nu ! 0 = nu ! Suc 0 - nu ! 0"
    by (rule nu_steps_nth)
  with ne show ?thesis
    by (simp add: hd_conv_nth)
qed

lemma allclose_uniform:
  assumes "nu_steps nu \<noteq> []"
  shows "np_allclose (nu_steps nu) (hd (nu_steps nu)) = uniform_steps nu"
proof -
  have "np_allclose (nu_steps nu) (hd (nu_steps nu))
      = (\<forall>i<length (nu_steps nu). np_isclose (nu_steps nu ! i) (hd (nu_steps nu)))"
    by (simp add: np_allclose_def list_all_length)
  also have "\<dots> = (\<forall>i<length nu - 1. np_isclose (nu ! Suc i - nu ! i) (nu ! 1 - nu ! 0))"
    using assms by (simp add: length_nu_steps nu_steps_nth hd_nu_steps)
  also have "\<dots> = uniform_steps nu"
    by (auto simp: uniform_steps_def np_isclose_def list_all_iff)
  finally show ?thesis .
qed

lemma short_axis_uniform: "nu_steps nu = [] \<Longrightarrow> uniform_steps nu"
proof -
  assume "nu_steps nu = []"
  then have "length nu - 1 = 0"
    using length_nu_steps [of nu] by simp
  then show ?thesis
    by (simp add: uniform_steps_def)
qed

lemma msg_broadcast_neq: "msg_broadcast \<noteq> msg_not_uniform"
  by (simp add: msg_broadcast_def msg_not_uniform_def)

lemma moments_not_uniform: "moments nu step rows m \<noteq> Inl (ValueError msg_not_uniform)"
  using msg_broadcast_neq
  by (auto simp: moments_def times_nu_def Let_def split: sum.splits if_splits)

lemma moments_square_not_uniform: "moments_square nu step rows \<noteq> Inl (ValueError msg_not_uniform)"
  using msg_broadcast_neq
  by (auto simp: moments_square_def Let_def split: if_splits)

text \<open>
  Claim C2. An axis whose successive differences are not uniform within the tolerance makes
  \<open>get_central_nu_bandwidth\<close> raise the \<open>ValueError\<close> "The frequency steps are not uniform!",
  whatever the data, so that no result is returned; an axis with uniform steps never
  raises this error.
\<close>

theorem nonuniform_axis_rejected:
  "(get_central_nu_bandwidth nu data = Inl (ValueError msg_not_uniform)) = (\<not> uniform_steps nu)"
proof (cases "nu_steps nu = []")
  case True
  then show ?thesis
    by (simp add: get_central_nu_bandwidth_def short_axis_uniform)
next
  case False
  show ?thesis
  proof (cases "uniform_steps nu")
    case True
    with False show ?thesis
      using moments_not_uniform moments_square_not_uniform
      by (simp add: get_central_nu_bandwidth_def allclose_uniform Let_def split: ndarray.splits)
  next
    case nonuni: False
    with False show ?thesis
      by (simp add: get_central_nu_bandwidth_def allclose_uniform)
  qed
qed

theorem nonuniform_axis_rejected_witness:
  "get_central_nu_bandwidth [1, 2, 4] (Arr1 [1, 1, 1]) = Inl (ValueError msg_not_uniform)
   \<and> \<not> uniform_steps [1, 2, 4]
   \<and> get_central_nu_bandwidth [1, 2, 3] (Arr1 [1, 1, 1]) = Inr (Scalar (Some 2), Scalar (Some 3))
   \<and> uniform_steps [1, 2, 3]"
proof -
  have a: "\<not> uniform_steps [1, 2, 4]"
    by (simp add: uniform_steps_def atol_def rtol_def)
  have b: "uniform_steps [1, 2, 3]"
    by (simp add: uniform_steps_def atol_def rtol_def)
  have c: "get_central_nu_bandwidth [1, 2, 3] (Arr1 [1, 1, 1]) = Inr (Scalar (Some 2), Scalar (Some 3))"
    by (simp add: get_central_nu_bandwidth_def nu_steps_def np_allclose_def np_isclose_def atol_def
        rtol_def moments_def times_nu_def col_sums_def column_def np_div_def Let_def)
  from a b c nonuniform_axis_rejected [of "[1, 2, 4]" "Arr1 [1, 1, 1]"] show ?thesis
    by simp
qed

section \<open>The moments of a rectangular response\<close>

lemma nu_steps_grid: "nu_steps (grid nu0 delta n) = replicate (n - 1) delta"
proof (rule nth_equalityI)
  show "length (nu_steps (grid nu0 delta n)) = length (replicate (n - 1) delta)"
    by (simp add: length_nu_steps grid_def)
next
  fix i assume "i < length (nu_steps (grid nu0 delta n))"
  then have i: "Suc i < n" by (simp add: length_nu_steps grid_def)
  then have "nu_steps (grid nu0 delta n) ! i = grid nu0 delta n ! Suc i - grid nu0 delta n ! i"
    by (simp add: nu_steps_nth grid_def)
  also have "\<dots> = delta" using i by (simp add: grid_def algebra_simps)
  finally show "nu_steps (grid nu0 delta n) ! i = replicate (n - 1) delta ! i"
    using i by simp
qed

lemma allclose_replicate: "np_allclose (replicate k d) d"
  by (simp add: np_allclose_def np_isclose_def list_all_iff atol_def rtol_def)

lemma sum_list_map2_nth:
  "length xs = length ys \<Longrightarrow> sum_list (map2 f xs ys) = (\<Sum>i<length xs. f (xs ! i) (ys ! i) :: real)"
  by (simp add: sum_list_sum_nth atLeast0LessThan)

lemma moments_column:
  assumes "length xs = length nu"
  shows "moments nu step (map (\<lambda>x. [x]) xs) 1 =
    Inr (Scalar (np_div (sum_list (map2 (*) xs nu)) (sum_list xs)),
         Scalar (np_div ((sum_list xs)^2 * step) (sum_list (map (\<lambda>d. d ^ 2) xs))))"
proof -
  have t: "times_nu (map (\<lambda>x. [x]) xs) nu = Inr (map2 (\<lambda>x v. [x * v]) xs nu)"
    using assms by (simp add: times_nu_def zip_map1 split_def)
  have c1: "column (map2 (\<lambda>x v. [x * v]) xs nu) 0 = map2 (*) xs nu"
    by (simp add: column_def split_def)
  have c2: "column (map (\<lambda>x. [x]) xs) 0 = xs"
    by (simp add: column_def map_idI)
  have c3: "column (map (map (\<lambda>d. d ^ 2)) (map (\<lambda>x. [x]) xs)) 0 = map (\<lambda>d. d ^ 2) xs"
    by (simp add: column_def)
  show ?thesis
    by (simp add: moments_def t col_sums_def c1 c2 c3 del: map_map)
qed

lemma window_nth:
  "i < s + w + t \<Longrightarrow> window s w t a ! i = (if s \<le> i \<and> i < s + w then a else 0)"
  by (auto simp: window_def nth_append)

lemma sum_window: "sum_list (window s w t a) = real w * a"
  by (simp add: window_def sum_list_replicate)

lemma sum_window_sq: "sum_list (map (\<lambda>d. d ^ 2) (window s w t a)) = real w * a ^ 2"
  by (simp add: window_def sum_list_replicate)

lemma grid_nth: "i < n \<Longrightarrow> grid nu0 delta n ! i = nu0 + delta * real i"
  by (simp add: grid_def)

lemma length_window: "length (window s w t a) = s + w + t"
  by (simp add: window_def)

lemma length_grid: "length (grid nu0 delta n) = n"
  by (simp add: grid_def)

lemma gauss_shift: "(\<Sum>i\<in>{s..<s + w}. real i) = real w * real s + real w * (real w - 1) / 2"
proof (induction w)
  case 0
  show ?case by simp
next
  case (Suc w)
  have "{s..<s + Suc w} = insert (s + w) {s..<s + w}"
    by auto
  then have "(\<Sum>i\<in>{s..<s + Suc w}. real i) = real (s + w) + (\<Sum>i\<in>{s..<s + w}. real i)"
    by simp
  also have "\<dots> = real (s + w) + (real w * real s + real w * (real w - 1) / 2)"
    by (simp only: Suc.IH)
  also have "\<dots> = real (Suc w) * real s + real (Suc w) * (real (Suc w) - 1) / 2"
    by (simp add: field_simps)
  finally show ?case .
qed

lemma sum_window_weighted:
  "sum_list (map2 (*) (window s w t a) (grid nu0 delta (s + w + t)))
     = a * (real w * nu0 + delta * (real w * real s + real w * (real w - 1) / 2))"
proof -
  let ?n = "s + w + t"
  let ?f = "\<lambda>i. a * (nu0 + delta * real i)"
  have "sum_list (map2 (*) (window s w t a) (grid nu0 delta ?n))
      = (\<Sum>i<length (window s w t a). window s w t a ! i * grid nu0 delta ?n ! i)"
    by (rule sum_list_map2_nth) (simp add: length_window length_grid)
  also have "\<dots> = (\<Sum>i\<in>{..<?n}. if s \<le> i \<and> i < s + w then ?f i else 0)"
    unfolding length_window by (rule sum.cong) (simp_all add: window_nth grid_nth)
  also have "\<dots> = (\<Sum>i\<in>{i \<in> {..<?n}. s \<le> i \<and> i < s + w}. ?f i)"
    by (rule sum.inter_filter [symmetric]) simp
  also have "{i \<in> {..<?n}. s \<le> i \<and> i < s + w} = {s..<s + w}"
    by auto
  also have "(\<Sum>i\<in>{s..<s + w}. ?f i) = a * (real w * nu0 + delta * (\<Sum>i\<in>{s..<s + w}. real i))"
    by (simp add: sum_distrib_left sum.distrib algebra_simps)
  finally show ?thesis
    by (simp add: gauss_shift)
qed

text \<open>
  Claim C6. On a uniform grid of at least two frequencies, a power column that is a constant
  non-zero value on a window of consecutive frequencies and zero elsewhere has its central
  frequency (the sum of power times frequency over the sum of power) at the midpoint of the
  window, and its bandwidth (the squared sum of power times the step over the sum of squared
  power) equal to the width of the window plus one grid step.
\<close>

theorem rectangular_window:
  assumes "2 \<le> s + w + t" and "0 < w" and "a \<noteq> 0"
  shows "get_central_nu_bandwidth (grid nu0 delta (s + w + t)) (Arr1 (window s w t a)) =
     Inr (Scalar (Some ((grid nu0 delta (s + w + t) ! s + grid nu0 delta (s + w + t) ! (s + w - 1)) / 2)),
          Scalar (Some (grid nu0 delta (s + w + t) ! (s + w - 1) - grid nu0 delta (s + w + t) ! s + delta)))"
proof -
  let ?n = "s + w + t"
  have st: "nu_steps (grid nu0 delta ?n) = replicate (?n - 1) delta"
    by (rule nu_steps_grid)
  have ne: "nu_steps (grid nu0 delta ?n) \<noteq> []"
    using assms(1) by (simp add: st)
  have hd: "hd (nu_steps (grid nu0 delta ?n)) = delta"
    using assms(1) by (simp add: st hd_replicate)
  have close: "np_allclose (nu_steps (grid nu0 delta ?n)) delta"
    by (simp add: st allclose_replicate)
  have wpos: "real w \<noteq> 0" using assms(2) by simp
  have "get_central_nu_bandwidth (grid nu0 delta ?n) (Arr1 (window s w t a))
      = moments (grid nu0 delta ?n) delta (map (\<lambda>x. [x]) (window s w t a)) 1"
    using ne close by (simp add: get_central_nu_bandwidth_def hd)
  also have "\<dots> = Inr (Scalar (np_div (a * (real w * nu0 + delta * (real w * real s + real w * (real w - 1) / 2))) (real w * a)),
         Scalar (np_div ((real w * a)^2 * delta) (real w * a ^ 2)))"
    by (subst moments_column)
      (simp_all only: length_window length_grid sum_window sum_window_sq sum_window_weighted)
  also have "np_div (a * (real w * nu0 + delta * (real w * real s + real w * (real w - 1) / 2))) (real w * a)
      = Some ((grid nu0 delta ?n ! s + grid nu0 delta ?n ! (s + w - 1)) / 2)"
    using assms wpos by (simp add: np_div_def grid_nth field_simps of_nat_diff)
  also have "np_div ((real w * a)^2 * delta) (real w * a ^ 2)
      = Some (grid nu0 delta ?n ! (s + w - 1) - grid nu0 delta ?n ! s + delta)"
    using assms wpos by (simp add: np_div_def grid_nth field_simps power2_eq_square of_nat_diff)
  finally show ?thesis .
qed

theorem rectangular_window_witness:
  "(2::nat) \<le> 1 + 2 + 1 \<and> (0::nat) < 2 \<and> (- 1::real) \<noteq> 0
   \<and> grid 38 (1 / 5) (1 + 2 + 1) = [38, 191 / 5, 192 / 5, 193 / 5]
   \<and> window 1 2 1 (- 1) = [0, - 1, - 1, 0]
   \<and> get_central_nu_bandwidth (grid 38 (1 / 5) (1 + 2 + 1)) (Arr1 (window 1 2 1 (- 1)))
       = Inr (Scalar (Some (383 / 10)), Scalar (Some (2 / 5)))"
proof -
  have g: "grid 38 (1 / 5) (1 + 2 + 1) = [38, 191 / 5, 192 / 5, 193 / 5]"
    by (simp add: grid_def upt_rec)
  have w: "window 1 2 1 (- 1) = [0, - 1, - 1, 0]"
    by (simp add: window_def numeral_2_eq_2)
  have r: "get_central_nu_bandwidth (grid 38 (1 / 5) (1 + 2 + 1)) (Arr1 (window 1 2 1 (- 1)))
       = Inr (Scalar (Some ((grid 38 (1 / 5) (1 + 2 + 1) ! 1 + grid 38 (1 / 5) (1 + 2 + 1) ! (1 + 2 - 1)) / 2)),
          Scalar (Some (grid 38 (1 / 5) (1 + 2 + 1) ! (1 + 2 - 1) - grid 38 (1 / 5) (1 + 2 + 1) ! 1 + 1 / 5)))"
    by (rule rectangular_window) simp_all
  show ?thesis
    using r unfolding g w by simp
qed

section \<open>Detection of the blind channel\<close>

lemma takeWhile_stops: "\<exists>x\<in>set xs. P x \<Longrightarrow> length (takeWhile (\<lambda>x. \<not> P x) xs) < length xs"
  by (induction xs) auto

lemma first_index_props:
  assumes "\<exists>x\<in>set xs. P x"
  shows "first_index P xs < length xs" and "P (xs ! first_index P xs)"
    and "\<And>j. j < first_index P xs \<Longrightarrow> \<not> P (xs ! j)"
proof -
  show lt: "first_index P xs < length xs"
    using assms unfolding first_index_def by (rule takeWhile_stops)
  show "P (xs ! first_index P xs)"
    using lt nth_length_takeWhile [of "\<lambda>x. \<not> P x" xs] unfolding first_index_def by simp
  show "\<And>j. j < first_index P xs \<Longrightarrow> \<not> P (xs ! j)"
    unfolding first_index_def
    by (metis nth_mem set_takeWhileD takeWhile_nth)
qed

lemma np_argmin_props:
  assumes "xs \<noteq> []"
  obtains i where "np_argmin xs = Inr i" and "i < length xs"
    and "\<forall>j<length xs. xs ! i \<le> xs ! j" and "\<forall>j<i. xs ! i < xs ! j"
proof -
  let ?m = "Min (set xs)"
  let ?i = "first_index (\<lambda>x. x = ?m) xs"
  have mem: "?m \<in> set xs" using assms by (simp add: Min_in)
  then have ex: "\<exists>x\<in>set xs. x = ?m" by blast
  have lt: "?i < length xs" and at: "xs ! ?i = ?m"
    using first_index_props(1,2) [OF ex] by auto
  have before: "\<And>j. j < ?i \<Longrightarrow> xs ! j \<noteq> ?m"
    using first_index_props(3) [OF ex] by auto
  have le: "\<And>j. j < length xs \<Longrightarrow> ?m \<le> xs ! j"
    by simp
  have "\<forall>j<?i. xs ! ?i < xs ! j"
  proof (intro allI impI)
    fix j assume j: "j < ?i"
    then have "j < length xs" using lt by simp
    then have "?m \<le> xs ! j" by (rule le)
    with before [OF j] show "xs ! ?i < xs ! j" by (simp add: at)
  qed
  moreover have "\<forall>j<length xs. xs ! ?i \<le> xs ! j"
    using le by (simp add: at)
  moreover have "np_argmin xs = Inr ?i"
    using assms by (simp add: np_argmin_def)
  ultimately show thesis using that lt by blast
qed

lemma length_var_range: "length (var_range data) = ncols data"
  by (simp add: var_range_def)

text \<open>
  Claim C5, as amended. For a power matrix of four columns and at least one row: when no
  column has a smaller 95th-minus-5th percentile range than column 0, \<open>find_blind_channel\<close>
  returns index 0 with status \<open>0110\<close>; when column 3 has a strictly smaller range than the
  other three, it returns index 3 with status \<open>0101\<close>; and whatever it returns is an index
  of smallest range, 0 with \<open>0110\<close> or 3 with \<open>0101\<close>.
\<close>

theorem blind_index_and_status:
  assumes "data \<noteq> []" and "\<forall>r\<in>set data. length r = 4"
  shows "((\<forall>j<4. var_range data ! 0 \<le> var_range data ! j) \<longrightarrow>
            find_blind_channel data = Inr (0, ''0110''))
       \<and> ((\<forall>j<3. var_range data ! 3 < var_range data ! j) \<longrightarrow>
            find_blind_channel data = Inr (3, ''0101''))
       \<and> (\<forall>i p. find_blind_channel data = Inr (i, p) \<longrightarrow>
            i < 4 \<and> (\<forall>j<4. var_range data ! i \<le> var_range data ! j)
            \<and> (i = 0 \<and> p = ''0110'' \<or> i = 3 \<and> p = ''0101''))"
proof -
  have n: "ncols data = 4"
    using assms by (cases data) (simp_all add: ncols_def)
  then have len: "length (var_range data) = 4"
    by (simp add: length_var_range)
  then have ne: "var_range data \<noteq> []" by auto
  obtain i where arg: "np_argmin (var_range data) = Inr i" and i: "i < 4"
    and least: "\<forall>j<4. var_range data ! i \<le> var_range data ! j"
    and first: "\<forall>j<i. var_range data ! i < var_range data ! j"
    using np_argmin_props [OF ne] unfolding len by blast
  have fbc: "find_blind_channel data =
      (if i = 0 then Inr (i, ''0110'') else if i = 3 then Inr (i, ''0101'') else Inl UnboundLocalError)"
    by (simp add: find_blind_channel_def arg)
  have a: "(\<forall>j<4. var_range data ! 0 \<le> var_range data ! j) \<longrightarrow> find_blind_channel data = Inr (0, ''0110'')"
  proof
    assume h: "\<forall>j<4. var_range data ! 0 \<le> var_range data ! j"
    have "i = 0"
    proof (rule ccontr)
      assume "i \<noteq> 0"
      then have "var_range data ! i < var_range data ! 0" using first by simp
      moreover have "var_range data ! 0 \<le> var_range data ! i" using h i by simp
      ultimately show False by simp
    qed
    then show "find_blind_channel data = Inr (0, ''0110'')" by (simp add: fbc)
  qed
  have b: "(\<forall>j<3. var_range data ! 3 < var_range data ! j) \<longrightarrow> find_blind_channel data = Inr (3, ''0101'')"
  proof
    assume h: "\<forall>j<3. var_range data ! 3 < var_range data ! j"
    have "i = 3"
    proof (rule ccontr)
      assume "i \<noteq> 3"
      then have "i < 3" using i by simp
      then have "var_range data ! 3 < var_range data ! i" using h by simp
      moreover have "var_range data ! i \<le> var_range data ! 3" using least by simp
      ultimately show False by simp
    qed
    then show "find_blind_channel data = Inr (3, ''0101'')" by (simp add: fbc)
  qed
  have c: "\<forall>k p. find_blind_channel data = Inr (k, p) \<longrightarrow>
            k < 4 \<and> (\<forall>j<4. var_range data ! k \<le> var_range data ! j)
            \<and> (k = 0 \<and> p = ''0110'' \<or> k = 3 \<and> p = ''0101'')"
    using i least by (auto simp: fbc split: if_splits)
  from a b c show ?thesis by blast
qed

theorem blind_index_and_status_witness:
  "var_range [[7, 1, 2, 3], [7, 2, 1, 5]] = [0, 9 / 10, 9 / 10, 9 / 5]
   \<and> find_blind_channel [[7, 1, 2, 3], [7, 2, 1, 5]] = Inr (0, ''0110'')
   \<and> var_range [[3, 1, 2, 7], [5, 2, 1, 7]] = [9 / 5, 9 / 10, 9 / 10, 0]
   \<and> find_blind_channel [[3, 1, 2, 7], [5, 2, 1, 7]] = Inr (3, ''0101'')"
proof -
  let ?A = "[[7, 1, 2, 3], [7, 2, 1, 5 :: real]]"
  let ?B = "[[3, 1, 2, 7], [5, 2, 1, 7 :: real]]"
  have va: "var_range ?A = [0, 9 / 10, 9 / 10, 9 / 5]"
    by (simp add: var_range_def ncols_def column_def percentile_def upt_rec)
  have vb: "var_range ?B = [9 / 5, 9 / 10, 9 / 10, 0]"
    by (simp add: var_range_def ncols_def column_def percentile_def upt_rec)
  have pa: "\<forall>j<4. var_range ?A ! 0 \<le> var_range ?A ! j"
    unfolding va by (auto simp: less_Suc_eq numeral_eq_Suc)
  have pb: "\<forall>j<3. var_range ?B ! 3 < var_range ?B ! j"
    unfolding vb by (auto simp: less_Suc_eq numeral_eq_Suc)
  have a: "find_blind_channel ?A = Inr (0, ''0110'')"
    using blind_index_and_status [of ?A] pa by simp
  have b: "find_blind_channel ?B = Inr (3, ''0101'')"
    using blind_index_and_status [of ?B] pb by simp
  from va vb a b show ?thesis by simp
qed

text \<open>
  The claim as it was stated fails on a matrix whose flattest column is neither the first
  nor the last: nothing is returned.
\<close>

theorem blind_index_middle_column:
  "var_range [[0, 1, 0, 0], [1, 1, 1, 1]] = [9 / 10, 0, 9 / 10, 9 / 10]
   \<and> find_blind_channel [[0, 1, 0, 0], [1, 1, 1, 1]] = Inl UnboundLocalError"
  by (simp add: find_blind_channel_def var_range_def ncols_def column_def percentile_def
      np_argmin_def first_index_def upt_rec)

section \<open>The percentile pair of the uncertainties\<close>

text \<open>
  Claim C1 says that the three uncertainties of the aggregation are half the spread between
  the 97.7th and the 2.3rd percentile. The program takes the 2.7th percentile at lines 367,
  379 and 381. For one file of two frequencies the two differ in all three uncertainties.
\<close>

theorem uncertainty_percentiles_differ:
  "main_aggregation [38, 191 / 5] [[(- 1, - (1 / 2), - (1 / 4)), (- (1 / 2), - 1, - 1)]] =
     Inr \<lparr>final_band = [- (1 / 2), - 1],
          final_band_err = [1423 / 4000, 477 / 2000],
          final_central_nu = Scalar (Some (572 / 15)),
          final_bandwidth = Scalar (Some (9 / 25)),
          final_central_nu_err = Some (3319 / 75000),
          final_bandwidth_err = Some (3311 / 106250)\<rparr>
   \<and> map confidence_half_spread [[- 1, - (1 / 2), - (1 / 4)], [- (1 / 2), - 1, - 1]]
       = [1431 / 4000, 477 / 2000]
   \<and> confidence_half_spread [571 / 15, 572 / 15, 954 / 25] = 3339 / 75000
   \<and> confidence_half_spread [9 / 25, 9 / 25, 5 / 17] = 3339 / 106250"
proof -
  have stack: "column_stack [[(- 1, - (1 / 2), - (1 / 4)), (- (1 / 2), - 1, - 1)]]
      = Inr [[- 1, - (1 / 2), - (1 / 4)], [- (1 / 2), - 1, - 1]]"
    by (simp add: column_stack_def upt_rec)
  have steps: "nu_steps [38, 191 / 5] = [1 / 5]"
    by (simp add: nu_steps_def)
  have close: "np_allclose [1 / 5] (1 / 5)"
    by (simp add: np_allclose_def np_isclose_def atol_def rtol_def)
  have all: "get_central_nu_bandwidth [38, 191 / 5] (Arr2 [[- 1, - (1 / 2), - (1 / 4)], [- (1 / 2), - 1, - 1]])
      = Inr (Vector [Some (571 / 15), Some (572 / 15), Some (954 / 25)],
             Vector [Some (9 / 25), Some (9 / 25), Some (5 / 17)])"
    by (simp add: get_central_nu_bandwidth_def steps close ncols_def moments_def times_nu_def
        col_sums_def column_def np_div_def upt_rec Let_def power2_eq_square)
  have band: "map median [[- 1, - (1 / 2), - (1 / 4)], [- (1 / 2), - 1, - 1]] = [- (1 / 2), - 1]"
    by (simp add: median_def)
  have err: "map (\<lambda>row. (percentile (977 / 10) row - percentile (27 / 10) row) / 2)
        [[- 1, - (1 / 2), - (1 / 4)], [- (1 / 2), - 1, - 1]] = [1423 / 4000, 477 / 2000]"
    by (simp add: percentile_def)
  have final: "get_central_nu_bandwidth [38, 191 / 5] (Arr2 [[- (1 / 2)], [- 1]])
      = Inr (Scalar (Some (572 / 15)), Scalar (Some (9 / 25)))"
    by (simp add: get_central_nu_bandwidth_def steps close ncols_def moments_def times_nu_def
        col_sums_def column_def np_div_def Let_def power2_eq_square)
  have cerr: "half_difference (np_percentile (977 / 10) [Some (571 / 15), Some (572 / 15), Some (954 / 25)])
        (np_percentile (27 / 10) [Some (571 / 15), Some (572 / 15), Some (954 / 25)])
      = Some (3319 / 75000)"
    by (simp add: half_difference_def np_percentile_def percentile_def)
  have berr: "half_difference (np_percentile (977 / 10) [Some (9 / 25), Some (9 / 25), Some (5 / 17)])
        (np_percentile (27 / 10) [Some (9 / 25), Some (9 / 25), Some (5 / 17)])
      = Some (3311 / 106250)"
    by (simp add: half_difference_def np_percentile_def percentile_def)
  have code: "main_aggregation [38, 191 / 5] [[(- 1, - (1 / 2), - (1 / 4)), (- (1 / 2), - 1, - 1)]] =
     Inr \<lparr>final_band = [- (1 / 2), - 1],
          final_band_err = [1423 / 4000, 477 / 2000],
          final_central_nu = Scalar (Some (572 / 15)),
          final_bandwidth = Scalar (Some (9 / 25)),
          final_central_nu_err = Some (3319 / 75000),
          final_bandwidth_err = Some (3311 / 106250)\<rparr>"
    using band err
    by (simp add: main_aggregation_def stack all final cerr berr result_values_def Let_def)
  have spec1: "map confidence_half_spread [[- 1, - (1 / 2), - (1 / 4)], [- (1 / 2), - 1, - 1]]
       = [1431 / 4000, 477 / 2000]"
    by (simp add: confidence_half_spread_def percentile_def)
  have spec2: "confidence_half_spread [571 / 15, 572 / 15, 954 / 25] = 3339 / 75000"
    by (simp add: confidence_half_spread_def percentile_def)
  have spec3: "confidence_half_spread [9 / 25, 9 / 25, 5 / 17] = 3339 / 106250"
    by (simp add: confidence_half_spread_def percentile_def)
  from code spec1 spec2 spec3 show ?thesis by blast
qed

section \<open>The report parameters of the blind detectors\<close>

subsection \<open>Dictionaries\<close>

lemma map_of_replace_other:
  "x \<noteq> k \<Longrightarrow> map_of (map (\<lambda>(k', v'). if k' = k then (k', v) else (k', v')) d) x = map_of d x"
  by (induction d) auto

lemma map_of_replace_same:
  "k \<in> fst ` set d \<Longrightarrow> map_of (map (\<lambda>(k', v'). if k' = k then (k', v) else (k', v')) d) k = Some v"
  by (induction d) auto

lemma map_of_update: "map_of (update k v d) = (map_of d)(k \<mapsto> v)"
proof (cases "k \<in> set (map fst d)")
  case True
  then have "map_of (map (\<lambda>(k', v'). if k' = k then (k', v) else (k', v')) d) = (map_of d)(k \<mapsto> v)"
    by (auto simp: fun_eq_iff map_of_replace_other map_of_replace_same)
  with True show ?thesis by (simp add: update_def)
next
  case False
  then have "map_of d k = None" by (simp add: map_of_eq_None_iff)
  then have "map_of (d @ [(k, v)]) = (map_of d)(k \<mapsto> v)"
    by (auto simp: fun_eq_iff map_add_def split: option.splits)
  with False show ?thesis by (simp add: update_def)
qed

subsection \<open>Decimal strings\<close>

lemma below_ten: "d < 10 \<Longrightarrow> d \<in> {0, 1, 2, 3, 4, 5, 6, 7, 8, 9 :: nat}"
  by auto

lemma digit_char_neq_underscore: "d < 10 \<Longrightarrow> digit_char d \<noteq> CHR ''_''"
  by (drule below_ten) (auto simp: digit_char_def)

lemma digit_char_inj: "a < 10 \<Longrightarrow> b < 10 \<Longrightarrow> digit_char a = digit_char b \<Longrightarrow> a = b"
  by (drule below_ten, drule below_ten) (auto simp: digit_char_def)

lemma str_nat_no_underscore: "CHR ''_'' \<notin> set (str_nat n)"
proof (induction n rule: str_nat.induct)
  case (1 n)
  show ?case
  proof (cases "n < 10")
    case True
    then show ?thesis
      using digit_char_neq_underscore [of n] by (subst str_nat.simps) auto
  next
    case False
    then have "CHR ''_'' \<notin> set (str_nat (n div 10))" by (rule "1.IH")
    moreover have "digit_char (n mod 10) \<noteq> CHR ''_''"
      by (rule digit_char_neq_underscore) simp
    ultimately show ?thesis using False
      by (subst str_nat.simps) auto
  qed
qed

lemma str_nat_nonempty: "str_nat n \<noteq> []"
  by (subst str_nat.simps) simp

lemma str_nat_inj: "str_nat n = str_nat m \<Longrightarrow> n = m"
proof (induction n arbitrary: m rule: str_nat.induct)
  case (1 n)
  show ?case
  proof (cases "n < 10")
    case n: True
    show ?thesis
    proof (cases "m < 10")
      case True
      with n "1.prems" show ?thesis
        by (simp add: str_nat.simps [of n] str_nat.simps [of m] digit_char_inj)
    next
      case False
      with n "1.prems" show ?thesis
        using str_nat_nonempty [of "m div 10"]
        by (simp add: str_nat.simps [of n] str_nat.simps [of m])
    qed
  next
    case n: False
    show ?thesis
    proof (cases "m < 10")
      case True
      with n "1.prems" show ?thesis
        using str_nat_nonempty [of "n div 10"]
        by (simp add: str_nat.simps [of n] str_nat.simps [of m])
    next
      case False
      with n "1.prems" have eq: "str_nat (n div 10) = str_nat (m div 10)"
        and d: "digit_char (n mod 10) = digit_char (m mod 10)"
        by (simp_all add: str_nat.simps [of n] str_nat.simps [of m])
      from eq have "n div 10 = m div 10" using n by (rule "1.IH" [rotated])
      moreover from d have "n mod 10 = m mod 10" by (rule digit_char_inj [rotated 2]) simp_all
      ultimately show ?thesis by (metis div_mult_mod_eq)
    qed
  qed
qed

subsection \<open>Keys\<close>

lemma suffix_after_last:
  assumes "x \<notin> set s" and "x \<notin> set s'" and "p @ x # s = p' @ x # s'"
  shows "s = s'"
proof -
  have stop: "\<And>t q. x \<notin> set t \<Longrightarrow> takeWhile (\<lambda>c. c \<noteq> x) (rev t @ x # rev q) = rev t"
    by (auto simp: takeWhile_tail)
  from assms(3) have "rev (p @ x # s) = rev (p' @ x # s')" by simp
  then have "rev s @ x # rev p = rev s' @ x # rev p'" by simp
  then have "takeWhile (\<lambda>c. c \<noteq> x) (rev s @ x # rev p)
      = takeWhile (\<lambda>c. c \<noteq> x) (rev s' @ x # rev p')" by simp
  then have "rev s = rev s'" using stop [OF assms(1)] stop [OF assms(2)] by simp
  then show ?thesis by simp
qed

lemma entry_key_inj: "entry_key p j = entry_key p' j' \<Longrightarrow> j = j'"
proof -
  assume "entry_key p j = entry_key p' j'"
  then have "p @ CHR ''_'' # str_nat j = p' @ CHR ''_'' # str_nat j'"
    by (simp add: entry_key_def)
  then have "str_nat j = str_nat j'"
    by (rule suffix_after_last [OF str_nat_no_underscore str_nat_no_underscore])
  then show ?thesis by (rule str_nat_inj)
qed

lemma entry_key_neq_status_key: "entry_key p j \<noteq> status_key j'"
  by (simp add: entry_key_def status_key_def)

subsection \<open>One assignment\<close>

lemma set_item_effect:
  assumes "set_item a j i v = Inr a'"
  shows "j < length a" and "i < length (a ! j)" and "length a' = length a"
    and "\<And>j'. length (a' ! j') = length (a ! j')"
    and "\<And>j' i'. a' ! j' ! i' = (if j' = j \<and> i' = i then v else a ! j' ! i')"
proof -
  from assms have j: "j < length a" and i: "i < length (a ! j)"
    and a': "a' = a[j := (a ! j)[i := v]]"
    by (auto simp: set_item_def split: if_splits)
  show "j < length a" "i < length (a ! j)" by (rule j, rule i)
  show "length a' = length a" by (simp add: a')
  show "\<And>j'. length (a' ! j') = length (a ! j')"
    using j by (simp add: a' nth_list_update)
  show "\<And>j' i'. a' ! j' ! i' = (if j' = j \<and> i' = i then v else a ! j' ! i')"
    using j i by (simp add: a' nth_list_update)
qed

lemma zero_blind_effect:
  assumes "zero_blind p j i (c, b) = Inr (c', b')"
  shows "length c' = length c \<and> length b' = length b"
    and "\<And>j'. length (c' ! j') = length (c ! j') \<and> length (b' ! j') = length (b ! j')"
    and "\<And>j' i'. c' ! j' ! i' = (if j' = j \<and> i' = i \<and> is_blind p i then Some 0 else c ! j' ! i')"
    and "\<And>j' i'. b' ! j' ! i' = (if j' = j \<and> i' = i \<and> is_blind p i then Some 0 else b ! j' ! i')"
proof -
  show "length c' = length c \<and> length b' = length b"
    using assms set_item_effect(3)
    by (fastforce simp: zero_blind_def split: if_splits sum.splits)
  show "\<And>j'. length (c' ! j') = length (c ! j') \<and> length (b' ! j') = length (b ! j')"
    using assms set_item_effect(4)
    by (fastforce simp: zero_blind_def split: if_splits sum.splits)
  show "\<And>j' i'. c' ! j' ! i' = (if j' = j \<and> i' = i \<and> is_blind p i then Some 0 else c ! j' ! i')"
    using assms set_item_effect(5)
    by (fastforce simp: zero_blind_def split: if_splits sum.splits)
  show "\<And>j' i'. b' ! j' ! i' = (if j' = j \<and> i' = i \<and> is_blind p i then Some 0 else b ! j' ! i')"
    using assms set_item_effect(5)
    by (fastforce simp: zero_blind_def split: if_splits sum.splits)
qed

lemma detector_loop_Cons:
  assumes "detector_loop p j ((i, nam) # rest) (res, c, b) = Inr s'"
  obtains c1 b1 d where "zero_blind p j i (c, b) = Inr (c1, b1)"
    and "map_of res (entry_key p j) = Some (Dict d)"
    and "detector_loop p j rest
           (update (entry_key p j)
              (Dict (update (remove_slash nam)
                 (Dict [(''central_nu'', Num (c1 ! j ! i)), (''bandwidth'', Num (b1 ! j ! i))]) d)) res,
            c1, b1) = Inr s'"
  using assms
  by (auto simp: get_item_def set_nested_def
      split: sum.splits option.splits pyvalue.splits if_splits prod.splits)

subsection \<open>The arrays after the loops\<close>

lemma zeroed_where_refl: "zeroed_where (\<lambda>j i. False) a a"
  by (simp add: zeroed_where_def)

lemma zeroed_where_trans:
  assumes "zeroed_where B a a1" and "zeroed_where B' a1 a2"
  shows "zeroed_where (\<lambda>j i. B j i \<or> B' j i) a a2"
  using assms by (simp add: zeroed_where_def)

lemma zeroed_where_cong:
  assumes "zeroed_where B a a'" and "\<And>j i. B j i = B' j i"
  shows "zeroed_where B' a a'"
  using assms by (simp add: zeroed_where_def)

lemma zero_blind_zeroed:
  assumes "zero_blind p j i (c, b) = Inr (c', b')"
  shows "zeroed_where (\<lambda>j' i'. j' = j \<and> i' = i \<and> is_blind p i) c c'"
    and "zeroed_where (\<lambda>j' i'. j' = j \<and> i' = i \<and> is_blind p i) b b'"
  using zero_blind_effect [OF assms] by (simp_all add: zeroed_where_def)

lemma detector_loop_arrays:
  assumes "detector_loop p j ins (res, c, b) = Inr (res', c', b')"
  shows "zeroed_where (\<lambda>j' i'. j' = j \<and> i' \<in> fst ` set ins \<and> is_blind p i') c c'
       \<and> zeroed_where (\<lambda>j' i'. j' = j \<and> i' \<in> fst ` set ins \<and> is_blind p i') b b'"
  using assms
proof (induction ins arbitrary: res c b)
  case Nil
  then show ?case by (simp add: zeroed_where_def)
next
  case (Cons x ins)
  obtain i nam where x: "x = (i, nam)" by (cases x)
  from Cons.prems obtain c1 b1 res1 where
      z: "zero_blind p j i (c, b) = Inr (c1, b1)"
      and rest: "detector_loop p j ins (res1, c1, b1) = Inr (res', c', b')"
    unfolding x by (rule detector_loop_Cons)
  note ih = Cons.IH [OF rest]
  have "zeroed_where (\<lambda>j' i'. (j' = j \<and> i' = i \<and> is_blind p i)
          \<or> (j' = j \<and> i' \<in> fst ` set ins \<and> is_blind p i')) c c'"
    by (rule zeroed_where_trans [OF zero_blind_zeroed(1) [OF z] conjunct1 [OF ih]])
  then have c: "zeroed_where (\<lambda>j' i'. j' = j \<and> i' \<in> fst ` set (x # ins) \<and> is_blind p i') c c'"
    by (rule zeroed_where_cong) (auto simp: x)
  have "zeroed_where (\<lambda>j' i'. (j' = j \<and> i' = i \<and> is_blind p i)
          \<or> (j' = j \<and> i' \<in> fst ` set ins \<and> is_blind p i')) b b'"
    by (rule zeroed_where_trans [OF zero_blind_zeroed(2) [OF z] conjunct2 [OF ih]])
  then have b: "zeroed_where (\<lambda>j' i'. j' = j \<and> i' \<in> fst ` set (x # ins) \<and> is_blind p i') b b'"
    by (rule zeroed_where_cong) (auto simp: x)
  from c b show ?case by blast
qed

subsection \<open>The dictionary after the loop over the detectors\<close>

lemma report_entry_update_same:
  "report_entry (update (entry_key p j) (Dict d) res) p j n = map_of d n"
  by (simp add: report_entry_def map_of_update)

lemma detector_loop_frame:
  assumes "detector_loop p j ins (res, c, b) = Inr (res', c', b')" and "k \<noteq> entry_key p j"
  shows "map_of res' k = map_of res k"
  using assms
proof (induction ins arbitrary: res c b)
  case Nil
  then show ?case by simp
next
  case (Cons x ins)
  obtain i nam where x: "x = (i, nam)" by (cases x)
  from Cons.prems(1) obtain c1 b1 d where
      rest: "detector_loop p j ins
           (update (entry_key p j)
              (Dict (update (remove_slash nam)
                 (Dict [(''central_nu'', Num (c1 ! j ! i)), (''bandwidth'', Num (b1 ! j ! i))]) d)) res,
            c1, b1) = Inr (res', c', b')"
    unfolding x by (rule detector_loop_Cons)
  from Cons.IH [OF rest Cons.prems(2)] Cons.prems(2) show ?case
    by (simp add: map_of_update)
qed

lemma detector_loop_other_names:
  assumes "detector_loop p j ins (res, c, b) = Inr (res', c', b')"
    and "n \<notin> (\<lambda>x. remove_slash (snd x)) ` set ins"
  shows "report_entry res' p j n = report_entry res p j n"
  using assms
proof (induction ins arbitrary: res c b)
  case Nil
  then show ?case by simp
next
  case (Cons x ins)
  obtain i nam where x: "x = (i, nam)" by (cases x)
  from Cons.prems(1) obtain c1 b1 d where
      d: "map_of res (entry_key p j) = Some (Dict d)"
      and rest: "detector_loop p j ins
           (update (entry_key p j)
              (Dict (update (remove_slash nam)
                 (Dict [(''central_nu'', Num (c1 ! j ! i)), (''bandwidth'', Num (b1 ! j ! i))]) d)) res,
            c1, b1) = Inr (res', c', b')"
    unfolding x by (rule detector_loop_Cons)
  have n: "n \<noteq> remove_slash nam" and n': "n \<notin> (\<lambda>x. remove_slash (snd x)) ` set ins"
    using Cons.prems(2) by (auto simp: x)
  from Cons.IH [OF rest n'] n d show ?case
    by (simp add: report_entry_update_same map_of_update) (simp add: report_entry_def)
qed

lemma detector_loop_entries:
  assumes "detector_loop p j ins (res, c, b) = Inr (res', c', b')"
    and "distinct (map fst ins)" and "distinct (map (\<lambda>x. remove_slash (snd x)) ins)"
    and "(i, nam) \<in> set ins"
  shows "report_entry res' p j (remove_slash nam)
     = Some (Dict [(''central_nu'', Num (c' ! j ! i)), (''bandwidth'', Num (b' ! j ! i))])"
  using assms
proof (induction ins arbitrary: res c b)
  case Nil
  then show ?case by simp
next
  case (Cons x ins)
  obtain i0 nam0 where x: "x = (i0, nam0)" by (cases x)
  from Cons.prems(1) obtain c1 b1 d where
      rest: "detector_loop p j ins
           (update (entry_key p j)
              (Dict (update (remove_slash nam0)
                 (Dict [(''central_nu'', Num (c1 ! j ! i0)), (''bandwidth'', Num (b1 ! j ! i0))]) d)) res,
            c1, b1) = Inr (res', c', b')"
    unfolding x by (rule detector_loop_Cons)
  show ?case
  proof (cases "(i, nam) \<in> set ins")
    case True
    with Cons.IH [OF rest] Cons.prems(2,3) show ?thesis by simp
  next
    case False
    with Cons.prems(4) have eq: "i = i0" "nam = nam0" by (simp_all add: x)
    have fresh: "remove_slash nam0 \<notin> (\<lambda>x. remove_slash (snd x)) ` set ins"
      using Cons.prems(3) by (simp add: x)
    have i0: "i0 \<notin> fst ` set ins"
      using Cons.prems(2) by (simp add: x)
    have cells: "c' ! j ! i0 = c1 ! j ! i0" "b' ! j ! i0 = b1 ! j ! i0"
      using detector_loop_arrays [OF rest] i0 by (simp_all add: zeroed_where_def)
    have "report_entry res' p j (remove_slash nam0)
        = Some (Dict [(''central_nu'', Num (c1 ! j ! i0)), (''bandwidth'', Num (b1 ! j ! i0))])"
      using detector_loop_other_names [OF rest fresh]
      by (simp add: report_entry_update_same map_of_update)
    then show ?thesis by (simp add: eq cells)
  qed
qed

subsection \<open>The loop over the files\<close>

lemma names_enumerated:
  "enumerate 0 NAMING_CONVENTION = [(0, ''PW0/Q1''), (1, ''PW1/U1''), (2, ''PW2/U2''), (3, ''PW3/Q2'')]"
  by (simp add: NAMING_CONVENTION_def enumerate_eq_zip upt_rec)

lemma names_distinct:
  "distinct (map fst (enumerate 0 NAMING_CONVENTION))"
  "distinct (map (\<lambda>x. remove_slash (snd x)) (enumerate 0 NAMING_CONVENTION))"
  by (simp_all add: names_enumerated remove_slash_def)

lemma names_member:
  "i < 4 \<Longrightarrow> (i, NAMING_CONVENTION ! i) \<in> set (enumerate 0 NAMING_CONVENTION)"
  by (auto simp: names_enumerated NAMING_CONVENTION_def less_Suc_eq numeral_eq_Suc)

lemma names_indices: "is_blind p i \<Longrightarrow> i \<in> fst ` set (enumerate 0 NAMING_CONVENTION)"
  by (auto simp: is_blind_def names_enumerated)

lemma remove_slash_names: "i < 4 \<Longrightarrow> remove_slash (NAMING_CONVENTION ! i) = detector_names ! i"
  by (auto simp: NAMING_CONVENTION_def detector_names_def remove_slash_def less_Suc_eq numeral_eq_Suc)

lemma file_loop_Cons:
  assumes "file_loop ((j, p) # rest) (res, c, b) = Inr s'"
  obtains res1 c1 b1 where
    "detector_loop p j (enumerate 0 NAMING_CONVENTION)
       (update (entry_key p j) (Dict []) (update (status_key j) (Str p) res), c, b) = Inr (res1, c1, b1)"
    and "file_loop rest (res1, c1, b1) = Inr s'"
  using assms by (auto split: sum.splits)

lemma file_loop_arrays:
  assumes "file_loop js (res, c, b) = Inr (res', c', b')"
  shows "zeroed_where (\<lambda>j i. \<exists>p. (j, p) \<in> set js \<and> is_blind p i) c c'
       \<and> zeroed_where (\<lambda>j i. \<exists>p. (j, p) \<in> set js \<and> is_blind p i) b b'"
  using assms
proof (induction js arbitrary: res c b)
  case Nil
  then show ?case by (simp add: zeroed_where_def)
next
  case (Cons x js)
  obtain j p where x: "x = (j, p)" by (cases x)
  from Cons.prems obtain res0 res1 c1 b1 where
      det: "detector_loop p j (enumerate 0 NAMING_CONVENTION) (res0, c, b) = Inr (res1, c1, b1)"
      and rest: "file_loop js (res1, c1, b1) = Inr (res', c', b')"
    unfolding x by (rule file_loop_Cons)
  note d = detector_loop_arrays [OF det]
  note ih = Cons.IH [OF rest]
  have same: "\<And>j' i. ((j' = j \<and> i \<in> fst ` set (enumerate 0 NAMING_CONVENTION) \<and> is_blind p i)
        \<or> (\<exists>q. (j', q) \<in> set js \<and> is_blind q i))
      = (\<exists>q. (j', q) \<in> set (x # js) \<and> is_blind q i)"
    using names_indices by (auto simp: x)
  have c: "zeroed_where (\<lambda>j i. \<exists>p. (j, p) \<in> set (x # js) \<and> is_blind p i) c c'"
    by (rule zeroed_where_cong [OF zeroed_where_trans [OF conjunct1 [OF d] conjunct1 [OF ih]] same])
  have b: "zeroed_where (\<lambda>j i. \<exists>p. (j, p) \<in> set (x # js) \<and> is_blind p i) b b'"
    by (rule zeroed_where_cong [OF zeroed_where_trans [OF conjunct2 [OF d] conjunct2 [OF ih]] same])
  from c b show ?case by blast
qed

lemma file_loop_frame:
  assumes "file_loop js (res, c, b) = Inr (res', c', b')"
    and "\<And>j p. (j, p) \<in> set js \<Longrightarrow> k \<noteq> status_key j \<and> k \<noteq> entry_key p j"
  shows "map_of res' k = map_of res k"
  using assms
proof (induction js arbitrary: res c b)
  case Nil
  then show ?case by simp
next
  case (Cons x js)
  obtain j p where x: "x = (j, p)" by (cases x)
  from Cons.prems(1) obtain res1 c1 b1 where
      det: "detector_loop p j (enumerate 0 NAMING_CONVENTION)
       (update (entry_key p j) (Dict []) (update (status_key j) (Str p) res), c, b) = Inr (res1, c1, b1)"
      and rest: "file_loop js (res1, c1, b1) = Inr (res', c', b')"
    unfolding x by (rule file_loop_Cons)
  have k: "k \<noteq> status_key j" "k \<noteq> entry_key p j"
    using Cons.prems(2) [of j p] by (simp_all add: x)
  have "map_of res' k = map_of res1 k"
  proof (rule Cons.IH [OF rest])
    fix j' q assume "(j', q) \<in> set js"
    then show "k \<noteq> status_key j' \<and> k \<noteq> entry_key q j'"
      using Cons.prems(2) [of j' q] by simp
  qed
  also have "\<dots> = map_of (update (entry_key p j) (Dict []) (update (status_key j) (Str p) res)) k"
    by (rule detector_loop_frame [OF det k(2)])
  also have "\<dots> = map_of res k"
    using k by (simp add: map_of_update)
  finally show ?case .
qed

lemma file_loop_entries:
  assumes "file_loop js (res, c, b) = Inr (res', c', b')"
    and "distinct (map fst js)" and "(j, p) \<in> set js" and "i < 4"
  shows "report_entry res' p j (detector_names ! i)
     = Some (Dict [(''central_nu'', Num (c' ! j ! i)), (''bandwidth'', Num (b' ! j ! i))])"
  using assms(1,2,3)
proof (induction js arbitrary: res c b)
  case Nil
  then show ?case by simp
next
  case (Cons x js)
  obtain j0 p0 where x: "x = (j0, p0)" by (cases x)
  from Cons.prems(1) obtain res0 res1 c1 b1 where
      det: "detector_loop p0 j0 (enumerate 0 NAMING_CONVENTION) (res0, c, b) = Inr (res1, c1, b1)"
      and rest: "file_loop js (res1, c1, b1) = Inr (res', c', b')"
    unfolding x by (rule file_loop_Cons)
  show ?case
  proof (cases "(j, p) \<in> set js")
    case True
    with Cons.IH [OF rest] Cons.prems(2) show ?thesis by simp
  next
    case False
    with Cons.prems(3) have eq: "j0 = j" "p0 = p" by (simp_all add: x)
    have fresh: "\<And>q. (j, q) \<notin> set js"
      using Cons.prems(2) by (force simp: x eq)
    have keys: "\<And>j' q. (j', q) \<in> set js \<Longrightarrow>
        entry_key p j \<noteq> status_key j' \<and> entry_key p j \<noteq> entry_key q j'"
      using fresh entry_key_inj entry_key_neq_status_key by blast
    have outer: "map_of res' (entry_key p j) = map_of res1 (entry_key p j)"
      by (rule file_loop_frame [OF rest keys])
    have cells: "c' ! j ! i = c1 ! j ! i" "b' ! j ! i = b1 ! j ! i"
      using file_loop_arrays [OF rest] fresh by (simp_all add: zeroed_where_def)
    have "report_entry res1 p j (remove_slash (NAMING_CONVENTION ! i))
        = Some (Dict [(''central_nu'', Num (c1 ! j ! i)), (''bandwidth'', Num (b1 ! j ! i))])"
      using det names_distinct names_member [OF assms(4)] unfolding eq
      by (rule detector_loop_entries)
    then show ?thesis
      using outer by (simp add: report_entry_def cells remove_slash_names [OF assms(4)])
  qed
qed

subsection \<open>The whole function\<close>

lemma enumerate_member: "(j, p) \<in> set (enumerate 0 xs) \<longleftrightarrow> j < length xs \<and> p = xs ! j"
  by (auto simp: in_set_enumerate_eq)

lemma build_arrays:
  assumes "build_dict_from_results pol dur P c b f1 f2 f3 f4 = Inr (results, c', b')"
  shows "zeroed_where (\<lambda>j i. j < length P \<and> is_blind (P ! j) i) c c'"
    and "zeroed_where (\<lambda>j i. j < length P \<and> is_blind (P ! j) i) b b'"
proof -
  from assms obtain res0 where run: "file_loop (enumerate 0 P) (res0, c, b) = Inr (results, c', b')"
    by (simp add: build_dict_from_results_def)
  have same: "\<And>j i. (\<exists>p. (j, p) \<in> set (enumerate 0 P) \<and> is_blind p i)
      = (j < length P \<and> is_blind (P ! j) i)"
    by (auto simp: enumerate_member)
  show "zeroed_where (\<lambda>j i. j < length P \<and> is_blind (P ! j) i) c c'"
    by (rule zeroed_where_cong [OF conjunct1 [OF file_loop_arrays [OF run]] same])
  show "zeroed_where (\<lambda>j i. j < length P \<and> is_blind (P ! j) i) b b'"
    by (rule zeroed_where_cong [OF conjunct2 [OF file_loop_arrays [OF run]] same])
qed

lemma zeroed_where_blind_zeroed:
  assumes "zeroed_where (\<lambda>j i. j < length P \<and> is_blind (P ! j) i) a a'"
  shows "a' = blind_zeroed P a"
proof (rule nth_equalityI)
  show "length a' = length (blind_zeroed P a)"
    using assms by (simp add: zeroed_where_def blind_zeroed_def)
next
  fix j assume "j < length a'"
  then have j: "j < length a" using assms by (simp add: zeroed_where_def)
  have row: "blind_zeroed P a ! j
      = map (\<lambda>(i, x). if j < length P \<and> is_blind (P ! j) i then Some 0 else x) (enumerate 0 (a ! j))"
    using j by (simp add: blind_zeroed_def nth_enumerate_eq)
  show "a' ! j = blind_zeroed P a ! j"
  proof (rule nth_equalityI)
    show "length (a' ! j) = length (blind_zeroed P a ! j)"
      using assms by (simp add: row zeroed_where_def)
  next
    fix i assume "i < length (a' ! j)"
    then have i: "i < length (a ! j)" using assms by (simp add: zeroed_where_def)
    then show "a' ! j ! i = blind_zeroed P a ! j ! i"
      using assms by (simp add: row zeroed_where_def nth_enumerate_eq)
  qed
qed

lemma build_example:
  "build_dict_from_results ''S'' 3600 [''0101'', ''0110'']
       [[Some 43, Some 44, Some 45, None], [None, Some 44, Some 45, Some 43]]
       [[Some 8, Some 9, Some 7, None], [None, Some 9, Some 7, Some 8]]
       (Some 44) (Some 1) (Some 8) (Some 1)
   = Inr ([(''polarimeter_name'', Str ''S''),
           (''title'', Str ''Bandwidth test for polarimeter S''),
           (''sampling_frequency'', Num (Some 25)),
           (''test_duration'', Num (Some 1)),
           (''final_central_nu'', Num (Some 44)),
           (''final_central_nu_err'', Num (Some 1)),
           (''final_bandwidth'', Num (Some 8)),
           (''final_bandwidth_err'', Num (Some 1)),
           (''PSStatus_0'', Str ''0101''),
           (''ps0101_0'', Dict
              [(''PW0Q1'', Dict [(''central_nu'', Num (Some 43)), (''bandwidth'', Num (Some 8))]),
               (''PW1U1'', Dict [(''central_nu'', Num (Some 44)), (''bandwidth'', Num (Some 9))]),
               (''PW2U2'', Dict [(''central_nu'', Num (Some 45)), (''bandwidth'', Num (Some 7))]),
               (''PW3Q2'', Dict [(''central_nu'', Num (Some 0)), (''bandwidth'', Num (Some 0))])]),
           (''PSStatus_1'', Str ''0110''),
           (''ps0110_1'', Dict
              [(''PW0Q1'', Dict [(''central_nu'', Num (Some 0)), (''bandwidth'', Num (Some 0))]),
               (''PW1U1'', Dict [(''central_nu'', Num (Some 44)), (''bandwidth'', Num (Some 9))]),
               (''PW2U2'', Dict [(''central_nu'', Num (Some 45)), (''bandwidth'', Num (Some 7))]),
               (''PW3Q2'', Dict [(''central_nu'', Num (Some 43)), (''bandwidth'', Num (Some 8))])])],
          [[Some 43, Some 44, Some 45, Some 0], [Some 0, Some 44, Some 45, Some 43]],
          [[Some 8, Some 9, Some 7, Some 0], [Some 0, Some 9, Some 7, Some 8]])"
  by (simp add: build_dict_from_results_def enumerate_eq_zip upt_rec NAMING_CONVENTION_def
      zero_blind_def is_blind_def set_item_def get_item_def set_nested_def update_def
      entry_key_def status_key_def remove_slash_def str_nat.simps digit_char_def
      SAMPLING_FREQUENCY_HZ_def)

text \<open>
  Claim C8. In the mapping that \<open>build_dict_from_results\<close> returns, the entry of every file
  \<open>j\<close> (under the key made of its status and its index) for every detector \<open>i\<close> holds 0 as
  central frequency and as bandwidth when the detector is the blind one of the file's
  status (index 3 for \<open>0101\<close>, index 0 for \<open>0110\<close>), and the values of the two arrays that
  were passed in otherwise.
\<close>

theorem blind_entries_reported:
  assumes "build_dict_from_results pol dur P c b f1 f2 f3 f4 = Inr (results, c', b')"
    and "j < length P" and "i < 4"
  shows "report_entry results (P ! j) j (detector_names ! i) =
     Some (Dict [(''central_nu'', Num (if is_blind (P ! j) i then Some 0 else c ! j ! i)),
                 (''bandwidth'', Num (if is_blind (P ! j) i then Some 0 else b ! j ! i))])"
proof -
  from assms(1) obtain res0 where run: "file_loop (enumerate 0 P) (res0, c, b) = Inr (results, c', b')"
    by (simp add: build_dict_from_results_def)
  have member: "(j, P ! j) \<in> set (enumerate 0 P)"
    using assms(2) by (simp add: enumerate_member)
  have "distinct (map fst (enumerate 0 P))"
    by simp
  with run have "report_entry results (P ! j) j (detector_names ! i)
      = Some (Dict [(''central_nu'', Num (c' ! j ! i)), (''bandwidth'', Num (b' ! j ! i))])"
    using member assms(3) by (rule file_loop_entries)
  moreover have "c' ! j ! i = (if is_blind (P ! j) i then Some 0 else c ! j ! i)"
    using build_arrays(1) [OF assms(1)] assms(2) by (simp add: zeroed_where_def)
  moreover have "b' ! j ! i = (if is_blind (P ! j) i then Some 0 else b ! j ! i)"
    using build_arrays(2) [OF assms(1)] assms(2) by (simp add: zeroed_where_def)
  ultimately show ?thesis by simp
qed

theorem blind_entries_reported_witness:
  "report_entry
     (fst (projr (build_dict_from_results ''S'' 3600 [''0101'', ''0110'']
       [[Some 43, Some 44, Some 45, None], [None, Some 44, Some 45, Some 43]]
       [[Some 8, Some 9, Some 7, None], [None, Some 9, Some 7, Some 8]]
       (Some 44) (Some 1) (Some 8) (Some 1)))) ''0101'' 0 ''PW3Q2''
     = Some (Dict [(''central_nu'', Num (Some 0)), (''bandwidth'', Num (Some 0))])
   \<and> report_entry
     (fst (projr (build_dict_from_results ''S'' 3600 [''0101'', ''0110'']
       [[Some 43, Some 44, Some 45, None], [None, Some 44, Some 45, Some 43]]
       [[Some 8, Some 9, Some 7, None], [None, Some 9, Some 7, Some 8]]
       (Some 44) (Some 1) (Some 8) (Some 1)))) ''0110'' 1 ''PW0Q1''
     = Some (Dict [(''central_nu'', Num (Some 0)), (''bandwidth'', Num (Some 0))])
   \<and> report_entry
     (fst (projr (build_dict_from_results ''S'' 3600 [''0101'', ''0110'']
       [[Some 43, Some 44, Some 45, None], [None, Some 44, Some 45, Some 43]]
       [[Some 8, Some 9, Some 7, None], [None, Some 9, Some 7, Some 8]]
       (Some 44) (Some 1) (Some 8) (Some 1)))) ''0110'' 1 ''PW3Q2''
     = Some (Dict [(''central_nu'', Num (Some 43)), (''bandwidth'', Num (Some 8))])"
proof -
  note run = build_example
  have a: "(0::nat) < length [''0101'', ''0110'']" "(1::nat) < length [''0101'', ''0110'']"
    and b: "(0::nat) < 4" "(3::nat) < 4"
    by simp_all
  show ?thesis
    using blind_entries_reported [OF run a(1) b(2)] blind_entries_reported [OF run a(2) b(1)]
      blind_entries_reported [OF run a(2) b(2)]
    unfolding run by (simp add: is_blind_def detector_names_def)
qed

text \<open>
  Claim C10. The assignments of lines 252 and 253 go to the arrays of the caller: when
  \<open>build_dict_from_results\<close> returns, each of the two arrays holds 0 at the entry of the
  blind detector of every file (index 3 for status \<open>0101\<close>, index 0 for \<open>0110\<close>) and is
  unchanged at every other entry; and there is a call after which an array differs from
  what was passed in.
\<close>

theorem arrays_zeroed_in_place:
  "(build_dict_from_results pol dur P c b f1 f2 f3 f4 = Inr (results, c', b')
      \<longrightarrow> c' = blind_zeroed P c \<and> b' = blind_zeroed P b)
   \<and> (\<exists>P0 c0 b0 results0 c1 b1.
         build_dict_from_results ''S'' 3600 P0 c0 b0 (Some 44) (Some 1) (Some 8) (Some 1)
           = Inr (results0, c1, b1)
         \<and> c1 \<noteq> c0 \<and> b1 \<noteq> b0)"
proof
  show "build_dict_from_results pol dur P c b f1 f2 f3 f4 = Inr (results, c', b')
      \<longrightarrow> c' = blind_zeroed P c \<and> b' = blind_zeroed P b"
  proof
    assume run: "build_dict_from_results pol dur P c b f1 f2 f3 f4 = Inr (results, c', b')"
    have "c' = blind_zeroed P c"
      by (rule zeroed_where_blind_zeroed [OF build_arrays(1) [OF run]])
    moreover have "b' = blind_zeroed P b"
      by (rule zeroed_where_blind_zeroed [OF build_arrays(2) [OF run]])
    ultimately show "c' = blind_zeroed P c \<and> b' = blind_zeroed P b" by blast
  qed
next
  have "[[Some 43, Some 44, Some 45, Some 0], [Some 0, Some 44, Some 45, Some 43]]
        \<noteq> [[Some 43, Some 44, Some 45, None], [None, Some 44, Some 45, Some (43 :: real)]]"
    and "[[Some 8, Some 9, Some 7, Some 0], [Some 0, Some 9, Some 7, Some 8]]
        \<noteq> [[Some 8, Some 9, Some 7, None], [None, Some 9, Some 7, Some (8 :: real)]]"
    by simp_all
  with build_example show "\<exists>P0 c0 b0 results0 c1 b1.
         build_dict_from_results ''S'' 3600 P0 c0 b0 (Some 44) (Some 1) (Some 8) (Some 1)
           = Inr (results0, c1, b1)
         \<and> c1 \<noteq> c0 \<and> b1 \<noteq> b0"
    by blast
qed

theorem arrays_zeroed_in_place_witness:
  "snd (projr (build_dict_from_results ''S'' 3600 [''0101'', ''0110'']
       [[Some 43, Some 44, Some 45, None], [None, Some 44, Some 45, Some 43]]
       [[Some 8, Some 9, Some 7, None], [None, Some 9, Some 7, Some 8]]
       (Some 44) (Some 1) (Some 8) (Some 1)))
     = (blind_zeroed [''0101'', ''0110'']
          [[Some 43, Some 44, Some 45, None], [None, Some 44, Some 45, Some 43]],
        blind_zeroed [''0101'', ''0110'']
          [[Some 8, Some 9, Some 7, None], [None, Some 9, Some 7, Some 8]])
   \<and> blind_zeroed [''0101'', ''0110'']
          [[Some 43, Some 44, Some 45, None], [None, Some 44, Some 45, Some 43]]
       = [[Some 43, Some 44, Some 45, Some 0], [Some 0, Some 44, Some 45, Some 43]]
   \<and> blind_zeroed [''0101'', ''0110'']
          [[Some 8, Some 9, Some 7, None], [None, Some 9, Some 7, Some 8]]
       = [[Some 8, Some 9, Some 7, Some 0], [Some 0, Some 9, Some 7, Some 8]]"
proof -
  have z: "blind_zeroed [''0101'', ''0110'']
          [[Some 43, Some 44, Some 45, None], [None, Some 44, Some 45, Some 43]]
       = [[Some 43, Some 44, Some 45, Some 0], [Some 0, Some 44, Some 45, Some 43]]"
    "blind_zeroed [''0101'', ''0110'']
          [[Some 8, Some 9, Some 7, None], [None, Some 9, Some 7, Some 8]]
       = [[Some 8, Some 9, Some 7, Some 0], [Some 0, Some 9, Some 7, Some 8]]"
    by (simp_all add: blind_zeroed_def is_blind_def enumerate_eq_zip upt_rec)
  from conjunct1 [OF arrays_zeroed_in_place, rule_format, OF build_example] z show ?thesis
    by (simp add: build_example)
qed

section \<open>A report without a title\<close>

lemma write_file_files:
  "write_file fs path text = Inr fs' \<Longrightarrow> files fs' = (files fs)(path \<mapsto> text)"
  by (auto simp: write_file_def split: if_splits)

lemma copyfile_files:
  "copyfile fs src dst = Inr fs' \<Longrightarrow> \<exists>text. files fs' = (files fs)(dst \<mapsto> text)"
  by (auto simp: copyfile_def read_file_def dest: write_file_files split: if_splits option.splits)

text \<open>
  Claim C9, as amended. When \<open>params\<close> has no key \<open>title\<close>, \<open>create_report\<close> raises: the
  \<open>KeyError\<close> of line 55 once the stylesheet is copied and the Markdown report is rendered
  and written, and the error of the step that failed otherwise. The failed call leaves every
  file as it was except the copy of the stylesheet and the Markdown report in
  \<open>output_path\<close>: the HTML report is not written.
\<close>

theorem create_report_without_title:
  assumes "map_of params ''title'' = None"
  shows "(\<exists>e. fst (create_report lib module_dir params md_template_file md_report_file
                  html_report_file output_path fs) = Raised e)
    \<and> (\<forall>path. path \<noteq> os_path_join output_path ''report_style.css''
            \<and> path \<noteq> os_path_join output_path md_report_file
          \<longrightarrow> files (snd (create_report lib module_dir params md_template_file md_report_file
                  html_report_file output_path fs)) path = files fs path)
    \<and> (\<forall>fs1 report_template md_report fs2.
          copyfile fs (os_path_join (os_path_join module_dir ''template'') ''report_style.css'')
             (os_path_join output_path ''report_style.css'') = Inr fs1
          \<and> read_file fs1 (os_path_join (os_path_join module_dir ''template'') md_template_file)
             = Inr report_template
          \<and> render lib report_template params = Inr md_report
          \<and> write_file fs1 (os_path_join output_path md_report_file) md_report = Inr fs2
          \<longrightarrow> create_report lib module_dir params md_template_file md_report_file
                  html_report_file output_path fs = (Raised (KeyError ''title''), fs2))"
proof (intro conjI)
  show "\<exists>e. fst (create_report lib module_dir params md_template_file md_report_file
                  html_report_file output_path fs) = Raised e"
    using assms by (auto simp: create_report_def Let_def split: sum.splits)
next
  show "\<forall>path. path \<noteq> os_path_join output_path ''report_style.css''
            \<and> path \<noteq> os_path_join output_path md_report_file
          \<longrightarrow> files (snd (create_report lib module_dir params md_template_file md_report_file
                  html_report_file output_path fs)) path = files fs path"
    using assms
    by (auto simp: create_report_def Let_def split: sum.splits
        dest!: write_file_files copyfile_files)
next
  show "\<forall>fs1 report_template md_report fs2.
          copyfile fs (os_path_join (os_path_join module_dir ''template'') ''report_style.css'')
             (os_path_join output_path ''report_style.css'') = Inr fs1
          \<and> read_file fs1 (os_path_join (os_path_join module_dir ''template'') md_template_file)
             = Inr report_template
          \<and> render lib report_template params = Inr md_report
          \<and> write_file fs1 (os_path_join output_path md_report_file) md_report = Inr fs2
          \<longrightarrow> create_report lib module_dir params md_template_file md_report_file
                  html_report_file output_path fs = (Raised (KeyError ''title''), fs2)"
    using assms by (simp add: create_report_def Let_def)
qed

theorem create_report_without_title_witness:
  "map_of [(''polarimeter_name'', Str ''S'')] ''title'' = None
   \<and> create_report plain_libraries ''/app'' [(''polarimeter_name'', Str ''S'')] ''bandwidth.md''
        ''bandwidth_report.md'' ''bandwidth_report.html'' ''/out'' example_files
       = (Raised (KeyError ''title''),
          example_files\<lparr>files := (files example_files)
            (''/out/report_style.css'' \<mapsto> ''body {}'', ''/out/bandwidth_report.md'' \<mapsto> ''# Report'')\<rparr>)
   \<and> files (snd (create_report plain_libraries ''/app'' [(''polarimeter_name'', Str ''S'')]
        ''bandwidth.md'' ''bandwidth_report.md'' ''bandwidth_report.html'' ''/out'' example_files))
        ''/out/bandwidth_report.html'' = None"
proof -
  have t: "map_of [(''polarimeter_name'', Str ''S'')] ''title'' = None"
    by simp
  note th = create_report_without_title [OF t, of plain_libraries "''/app''" "''bandwidth.md''"
      "''bandwidth_report.md''" "''bandwidth_report.html''" "''/out''" example_files]
  have run: "create_report plain_libraries ''/app'' [(''polarimeter_name'', Str ''S'')] ''bandwidth.md''
        ''bandwidth_report.md'' ''bandwidth_report.html'' ''/out'' example_files
       = (Raised (KeyError ''title''),
          example_files\<lparr>files := (files example_files)
            (''/out/report_style.css'' \<mapsto> ''body {}'', ''/out/bandwidth_report.md'' \<mapsto> ''# Report'')\<rparr>)"
    by (simp add: create_report_def example_files_def plain_libraries_def os_path_join_def
        copyfile_def read_file_def write_file_def Let_def)
  have "files (snd (create_report plain_libraries ''/app'' [(''polarimeter_name'', Str ''S'')]
        ''bandwidth.md'' ''bandwidth_report.md'' ''bandwidth_report.html'' ''/out'' example_files))
        ''/out/bandwidth_report.html'' = files example_files ''/out/bandwidth_report.html''"
    using th by (simp add: os_path_join_def)
  then show ?thesis
    using t run by (simp add: example_files_def)
qed

text \<open>
  The claim as it was stated fails: in a call that raises for the missing title, the
  stylesheet and the Markdown report have been written to the output directory.
\<close>

theorem create_report_partial_output:
  "fst (create_report plain_libraries ''/app'' [(''polarimeter_name'', Str ''S'')] ''bandwidth.md''
     ''bandwidth_report.md'' ''bandwidth_report.html'' ''/out'' example_files)
     = Raised (KeyError ''title'')
   \<and> files example_files ''/out/report_style.css'' = None
   \<and> files (snd (create_report plain_libraries ''/app'' [(''polarimeter_name'', Str ''S'')]
        ''bandwidth.md'' ''bandwidth_report.md'' ''bandwidth_report.html'' ''/out'' example_files))
        ''/out/report_style.css'' = Some ''body {}''
   \<and> files example_files ''/out/bandwidth_report.md'' = None
   \<and> files (snd (create_report plain_libraries ''/app'' [(''polarimeter_name'', Str ''S'')]
        ''bandwidth.md'' ''bandwidth_report.md'' ''bandwidth_report.html'' ''/out'' example_files))
        ''/out/bandwidth_report.md'' = Some ''# Report''"
  by (simp add: create_report_def example_files_def plain_libraries_def os_path_join_def
      copyfile_def read_file_def write_file_def Let_def)

section \<open>Offset removal undoes a constant offset\<close>

lemma sort_shift: "sort (map (\<lambda>d. d + k) xs) = map (\<lambda>d. d + (k::real)) (sort xs)"
proof (rule properties_for_sort)
  show "mset (map (\<lambda>d. d + k) (sort xs)) = mset (map (\<lambda>d. d + k) xs)"
    by simp
  show "sorted (map (\<lambda>d. d + k) (sort xs))"
    by (simp add: sorted_map sorted_wrt_mono_rel [of _ "(\<le>)"])
qed

lemma median_shift:
  assumes "xs \<noteq> []"
  shows "median (map (\<lambda>d. d + k) xs) = median xs + k"
proof -
  have n: "0 < length xs" using assms by simp
  then have a: "length xs div 2 < length (sort xs)" by simp
  have b: "length xs div 2 - 1 < length (sort xs)" using a by (simp add: less_imp_diff_less)
  show ?thesis
    using a b by (simp add: median_def sort_shift Let_def field_simps)
qed

lemma off_rows_shift: "off_rows nu (map (map f) D) = map (map f) (off_rows nu D)"
proof -
  have "filter (\<lambda>(v, row). v = - 1) (zip nu (map (map f) D))
      = map (\<lambda>(v, row). (v, map f row)) (filter (\<lambda>(v, row). v = - 1) (zip nu D))"
    by (simp add: zip_map2 filter_map o_def split_def)
  then show ?thesis
    by (simp add: off_rows_def split_def o_def)
qed

lemma off_rows_subset: "set (off_rows nu D) \<subseteq> set D"
  by (auto simp: off_rows_def dest: set_zip_rightD)

lemma column_shift:
  assumes "\<forall>row\<in>set rows. i < length row"
  shows "column (map (map f) rows) i = map f (column rows i)"
  using assms by (simp add: column_def)

lemma polyfit_constant: "x0 \<noteq> x1 \<Longrightarrow> np_polyfit1 x0 x1 k k = (0, k)"
  by (simp add: np_polyfit1_def)

lemma subtract_constant_row:
  assumes "length row = 4"
  shows "map (\<lambda>(i, d). if i < 4 then d - (v * 0 + k) else d) (enumerate 0 (map (\<lambda>d. d + k) row))
     = (row :: real list)"
proof (rule nth_equalityI)
  show "length (map (\<lambda>(i, d). if i < 4 then d - (v * 0 + k) else d) (enumerate 0 (map (\<lambda>d. d + k) row)))
      = length row"
    by simp
next
  fix i
  assume "i < length (map (\<lambda>(i, d). if i < 4 then d - (v * 0 + k) else d) (enumerate 0 (map (\<lambda>d. d + k) row)))"
  then have "i < length row" by simp
  then show "map (\<lambda>(i, d). if i < 4 then d - (v * 0 + k) else d) (enumerate 0 (map (\<lambda>d. d + k) row)) ! i
      = row ! i"
    using assms by (simp add: nth_enumerate_eq)
qed

lemma subtract_constant:
  fixes nu :: "real list" and D :: "real list list"
  assumes "length nu = length D" and "\<forall>row\<in>set D. length row = 4"
  shows "map2 (\<lambda>v row. map (\<lambda>(i, d). if i < 4 then d - (v * 0 + k) else d) (enumerate 0 row))
           nu (map (map (\<lambda>d. d + k)) D) = D"
proof (rule nth_equalityI)
  show "length (map2 (\<lambda>v row. map (\<lambda>(i, d). if i < 4 then d - (v * 0 + k) else d) (enumerate 0 row))
           nu (map (map (\<lambda>d. d + k)) D)) = length D"
    using assms(1) by simp
next
  fix j
  assume "j < length (map2 (\<lambda>v row. map (\<lambda>(i, d). if i < 4 then d - (v * 0 + k) else d) (enumerate 0 row))
           nu (map (map (\<lambda>d. d + k)) D))"
  then have j: "j < length D" using assms(1) by simp
  then have "length (D ! j) = 4" using assms(2) by simp
  then show "map2 (\<lambda>v row. map (\<lambda>(i, d). if i < 4 then d - (v * 0 + k) else d) (enumerate 0 row))
           nu (map (map (\<lambda>d. d + k)) D) ! j = D ! j"
    using j assms(1) by (simp add: subtract_constant_row)
qed

text \<open>
  Claim C7, as amended. Let the frequency array have a positive entry, with the smallest
  positive entry different from the largest entry, and let \<open>D\<close> be a power array of four
  columns and of the same length whose rows at frequency \<open>-1\<close> exist in both halves and have
  median 0 per detector in each half. Then \<open>remove_offset\<close> applied to \<open>D\<close> with a constant
  \<open>k\<close> added to every element returns \<open>D\<close>.
\<close>

theorem constant_offset_removed:
  assumes len: "length nu = length D"
    and rect: "\<forall>row\<in>set D. length row = 4"
    and pos: "filter (\<lambda>v. v > 0) nu \<noteq> []"
    and span: "Min (set (filter (\<lambda>v. v > 0) nu)) \<noteq> Max (set nu)"
    and first: "off_rows (take (length D div 2) nu) (take (length D div 2) D) \<noteq> []"
      "\<forall>i<4. median (column (off_rows (take (length D div 2) nu) (take (length D div 2) D)) i) = 0"
    and second: "off_rows (drop (length D div 2) nu) (drop (length D div 2) D) \<noteq> []"
      "\<forall>i<4. median (column (off_rows (drop (length D div 2) nu) (drop (length D div 2) D)) i) = 0"
  shows "remove_offset nu (map (map (\<lambda>d. d + k)) D) = Inr D"
proof -
  let ?h = "length D div 2"
  let ?S = "map (map (\<lambda>d. d + k)) D"
  let ?f = "off_rows (take ?h nu) (take ?h D)"
  let ?s = "off_rows (drop ?h nu) (drop ?h D)"
  have ne: "D \<noteq> []" using pos len by auto
  have cols: "ncols ?S = 4" using ne rect by (cases D) (simp_all add: ncols_def)
  have f: "off_rows (take ?h nu) (take ?h ?S) = map (map (\<lambda>d. d + k)) ?f"
    by (simp add: take_map off_rows_shift del: map_map)
  have s: "off_rows (drop ?h nu) (drop ?h ?S) = map (map (\<lambda>d. d + k)) ?s"
    by (simp add: drop_map off_rows_shift del: map_map)
  have frows: "\<forall>row\<in>set ?f. length row = 4"
    using off_rows_subset [of "take ?h nu" "take ?h D"] rect by (auto dest: in_set_takeD)
  have srows: "\<forall>row\<in>set ?s. length row = 4"
    using off_rows_subset [of "drop ?h nu" "drop ?h D"] rect by (auto dest: in_set_dropD)
  have fmed: "\<And>i. i < 4 \<Longrightarrow> median (column (map (map (\<lambda>d. d + k)) ?f) i) = k"
  proof -
    fix i :: nat assume i: "i < 4"
    have "column (map (map (\<lambda>d. d + k)) ?f) i = map (\<lambda>d. d + k) (column ?f i)"
      using frows i by (intro column_shift) simp
    moreover have "column ?f i \<noteq> []" using first(1) by (simp add: column_def)
    ultimately show "median (column (map (map (\<lambda>d. d + k)) ?f) i) = k"
      using first(2) i by (simp add: median_shift)
  qed
  have smed: "\<And>i. i < 4 \<Longrightarrow> median (column (map (map (\<lambda>d. d + k)) ?s) i) = k"
  proof -
    fix i :: nat assume i: "i < 4"
    have "column (map (map (\<lambda>d. d + k)) ?s) i = map (\<lambda>d. d + k) (column ?s i)"
      using srows i by (intro column_shift) simp
    moreover have "column ?s i \<noteq> []" using second(1) by (simp add: column_def)
    ultimately show "median (column (map (map (\<lambda>d. d + k)) ?s) i) = k"
      using second(2) i by (simp add: median_shift)
  qed
  let ?coeff = "\<lambda>i. np_polyfit1 (Min (set (filter (\<lambda>v. v > 0) nu))) (Max (set nu))
      (median (column (map (map (\<lambda>d. d + k)) ?f) i)) (median (column (map (map (\<lambda>d. d + k)) ?s) i))"
  have coeff: "\<And>i. i < 4 \<Longrightarrow> ?coeff i = (0, k)"
    using span by (simp add: fmed smed polyfit_constant)
  have body: "map2 (\<lambda>v row. map (\<lambda>(i, d). if i < 4 then d - (v * fst (?coeff i) + snd (?coeff i)) else d)
                   (enumerate 0 row)) nu ?S
      = map2 (\<lambda>v row. map (\<lambda>(i, d). if i < 4 then d - (v * 0 + k) else d) (enumerate 0 row)) nu ?S"
    by (intro map_cong refl) (auto simp: coeff simp del: set_filter split: prod.splits)
  have "remove_offset nu ?S
      = Inr (map2 (\<lambda>v row. map (\<lambda>(i, d). if i < 4 then d - (v * fst (?coeff i) + snd (?coeff i)) else d)
                   (enumerate 0 row)) nu ?S)"
    using len pos first(1) second(1)
    by (simp add: remove_offset_def cols f s Let_def del: map_map set_filter)
  also have "\<dots> = Inr D"
    unfolding body by (simp only: subtract_constant [OF len rect])
  finally show ?thesis .
qed

theorem constant_offset_removed_witness:
  "map (map (\<lambda>d. d + 3)) [[0, 0, 0, 0], [5, 6, 7, 8], [1, 2, 3, 4], [0, 0, 0, 0 :: real]]
     = [[3, 3, 3, 3], [8, 9, 10, 11], [4, 5, 6, 7], [3, 3, 3, 3]]
   \<and> off_rows (take 2 [- 1, 38, 39, - 1]) (take 2 [[0, 0, 0, 0], [5, 6, 7, 8], [1, 2, 3, 4], [0, 0, 0, 0]])
     = [[0, 0, 0, 0]]
   \<and> off_rows (drop 2 [- 1, 38, 39, - 1]) (drop 2 [[0, 0, 0, 0], [5, 6, 7, 8], [1, 2, 3, 4], [0, 0, 0, 0]])
     = [[0, 0, 0, 0]]
   \<and> Min (set (filter (\<lambda>v. v > 0) [- 1, 38, 39, - 1 :: real])) = 38
   \<and> Max (set [- 1, 38, 39, - 1 :: real]) = 39
   \<and> remove_offset [- 1, 38, 39, - 1] [[3, 3, 3, 3], [8, 9, 10, 11], [4, 5, 6, 7], [3, 3, 3, 3]]
     = Inr [[0, 0, 0, 0], [5, 6, 7, 8], [1, 2, 3, 4], [0, 0, 0, 0]]"
proof -
  let ?nu = "[- 1, 38, 39, - 1 :: real]"
  let ?D = "[[0, 0, 0, 0], [5, 6, 7, 8], [1, 2, 3, 4], [0, 0, 0, 0 :: real]]"
  have shifted: "map (map (\<lambda>d. d + 3)) ?D = [[3, 3, 3, 3], [8, 9, 10, 11], [4, 5, 6, 7], [3, 3, 3, 3]]"
    by simp
  have f: "off_rows (take 2 ?nu) (take 2 ?D) = [[0, 0, 0, 0]]"
    by (simp add: off_rows_def)
  have s: "off_rows (drop 2 ?nu) (drop 2 ?D) = [[0, 0, 0, 0]]"
    by (simp add: off_rows_def)
  have lo: "Min (set (filter (\<lambda>v. v > 0) ?nu)) = 38" and hi: "Max (set ?nu) = 39"
    by simp_all
  have half: "length ?D div 2 = 2"
    by simp
  have med: "\<forall>i<4. median (column [[0, 0, 0, 0 :: real]] i) = 0"
    by (auto simp: median_def column_def less_Suc_eq numeral_eq_Suc)
  have "remove_offset ?nu (map (map (\<lambda>d. d + 3)) ?D) = Inr ?D"
  proof (rule constant_offset_removed)
    show "length ?nu = length ?D" by simp
    show "\<forall>row\<in>set ?D. length row = 4" by simp
    show "filter (\<lambda>v. v > 0) ?nu \<noteq> []" by simp
    show "Min (set (filter (\<lambda>v. v > 0) ?nu)) \<noteq> Max (set ?nu)"
      unfolding lo hi by simp
    show "off_rows (take (length ?D div 2) ?nu) (take (length ?D div 2) ?D) \<noteq> []"
      unfolding half f by simp
    show "\<forall>i<4. median (column (off_rows (take (length ?D div 2) ?nu) (take (length ?D div 2) ?D)) i) = 0"
      unfolding half f by (rule med)
    show "off_rows (drop (length ?D div 2) ?nu) (drop (length ?D div 2) ?D) \<noteq> []"
      unfolding half s by simp
    show "\<forall>i<4. median (column (off_rows (drop (length ?D div 2) ?nu) (drop (length ?D div 2) ?D)) i) = 0"
      unfolding half s by (rule med)
  qed
  then have "remove_offset ?nu [[3, 3, 3, 3], [8, 9, 10, 11], [4, 5, 6, 7], [3, 3, 3, 3]] = Inr ?D"
    unfolding shifted .
  with shifted f s lo hi show ?thesis
    by blast
qed

text \<open>
  The claim as it was stated fails on an acquisition in which the generator was never on:
  the rows at \<open>-1\<close> of both halves of \<open>D\<close> have median 0, the constant 1 is added, and
  \<open>np.min\<close> of the empty selection of positive frequencies raises.
\<close>

theorem constant_offset_no_sweep:
  "map (map (\<lambda>d. d + 1)) [[0, 0, 0, 0], [0, 0, 0, 0 :: real]] = [[1, 1, 1, 1], [1, 1, 1, 1]]
   \<and> off_rows (take 1 [- 1, - 1]) (take 1 [[0, 0, 0, 0], [0, 0, 0, 0]]) = [[0, 0, 0, 0]]
   \<and> off_rows (drop 1 [- 1, - 1]) (drop 1 [[0, 0, 0, 0], [0, 0, 0, 0]]) = [[0, 0, 0, 0]]
   \<and> map (\<lambda>i. median (column [[0, 0, 0, 0]] i)) [0, 1, 2, 3] = [0, 0, 0, 0]
   \<and> remove_offset [- 1, - 1] [[1, 1, 1, 1], [1, 1, 1, 1]] = Inl (ValueError msg_zero_size)"
  by (simp add: off_rows_def median_def column_def remove_offset_def)

section \<open>The binned spectrum\<close>

subsection \<open>The samples of positive frequency\<close>

lemma filter_zip_fst:
  assumes "length xs = length ys"
  shows "map fst (filter (\<lambda>(v, row). P v) (zip xs ys)) = filter P xs"
  using assms by (induction xs ys rule: list_induct2) auto

lemma zip_filtered:
  assumes "length nu = length data"
  shows "zip (filter P nu) (map snd (filter (\<lambda>(v, row). P v) (zip nu data)))
     = filter (\<lambda>(v, row). P v) (zip nu data)"
  using assms by (induction nu data rule: list_induct2) auto

lemma length_filtered:
  assumes "length nu = length data"
  shows "length (map snd (filter (\<lambda>(v, row). P v) (zip nu data))) = length (filter P nu)"
  using assms by (induction nu data rule: list_induct2) auto

lemma samples_at_filtered:
  assumes "length nu = length data" and "0 < f"
  shows "samples_at (filter (\<lambda>v. v > 0) nu) (map snd (filter (\<lambda>(v, row). v > 0) (zip nu data))) f
     = samples_at nu data f"
proof -
  have "filter (\<lambda>(v, row). v = f) (filter (\<lambda>(v, row). v > 0) (zip nu data))
      = filter (\<lambda>(v, row). v = f) (zip nu data)"
    using assms(2) by (auto intro: filter_cong)
  then show ?thesis
    by (simp add: samples_at_def zip_filtered [OF assms(1)])
qed

lemma length_samples_at:
  assumes "length xs = length rows"
  shows "length (samples_at xs rows f) = count_list xs f"
  using assms by (induction xs rows rule: list_induct2) (auto simp: samples_at_def)

subsection \<open>A contiguous run\<close>

lemma samples_at_append:
  assumes "length xs = length rows"
  shows "samples_at (xs @ ys) (rows @ others) f = samples_at xs rows f @ samples_at ys others f"
  using assms by (simp add: samples_at_def)

lemma samples_at_none:
  assumes "f \<notin> set xs"
  shows "samples_at xs rows f = []"
proof -
  have "\<forall>p\<in>set (zip xs rows). fst p \<noteq> f"
    using assms by (auto dest: set_zip_leftD)
  then show ?thesis
    by (auto simp: samples_at_def filter_empty_conv)
qed

lemma samples_at_all:
  assumes "length rows = c"
  shows "samples_at (replicate c f) rows f = rows"
proof -
  have "\<forall>p\<in>set (zip (replicate c f) rows). fst p = f"
    by (auto dest: set_zip_leftD)
  then have "filter (\<lambda>(v, row). v = f) (zip (replicate c f) rows) = zip (replicate c f) rows"
    by (auto simp: filter_id_conv)
  then show ?thesis
    using assms by (simp add: samples_at_def)
qed

lemma count_list_same: "count_list (replicate c f) f = c"
  by (induction c) simp_all

lemma count_list_zero: "count_list xs f = 0 \<Longrightarrow> f \<notin> set xs"
  by (simp add: count_list_0_iff)

lemma run_is_samples:
  assumes len: "length xs = length rows"
    and run: "take (count_list xs f) (drop j xs) = replicate (count_list xs f) f"
  shows "take (count_list xs f) (drop j rows) = samples_at xs rows f"
proof -
  let ?c = "count_list xs f"
  let ?A = "take j xs" and ?B = "take ?c (drop j xs)" and ?C = "drop ?c (drop j xs)"
  have xs: "xs = ?A @ ?B @ ?C" by (simp only: append_take_drop_id)
  have lenB: "length ?B = ?c" by (simp add: run)
  have "count_list xs f = count_list ?A f + count_list ?B f + count_list ?C f"
    by (subst xs) (simp only: count_list_append add.assoc)
  moreover have "count_list ?B f = ?c"
    by (simp only: run count_list_same)
  ultimately have "count_list ?A f = 0" and "count_list ?C f = 0"
    by simp_all
  then have A: "f \<notin> set ?A" and C: "f \<notin> set ?C"
    by (simp_all only: count_list_zero not_False_eq_True)
  let ?RA = "take j rows" and ?RB = "take ?c (drop j rows)" and ?RC = "drop ?c (drop j rows)"
  have rows: "rows = ?RA @ ?RB @ ?RC" by (simp only: append_take_drop_id)
  have la: "length ?A = length ?RA" using len by simp
  have lb: "length ?B = length ?RB" using len by simp
  have "samples_at xs rows f = samples_at (?A @ ?B @ ?C) (?RA @ ?RB @ ?RC) f"
    using xs rows by simp
  also have "\<dots> = samples_at ?A ?RA f @ samples_at ?B ?RB f @ samples_at ?C ?RC f"
    by (simp only: samples_at_append [OF la] samples_at_append [OF lb])
  also have "\<dots> = samples_at (replicate ?c f) ?RB f"
    by (simp only: samples_at_none [OF A] samples_at_none [OF C] run) simp
  also have "\<dots> = ?RB"
    using lb lenB by (intro samples_at_all) simp
  finally show ?thesis by simp
qed

lemma slice_trimmed:
  assumes "length (take c (drop j rows)) = c" and "rej \<le> c"
  shows "slice (j + rej) (int (j + c) - int rej) rows = trimmed rej (take c (drop j rows))"
proof -
  have stop: "int (j + c) - int rej = int (j + c - rej)"
    using assms(2) by simp
  have "slice (j + rej) (int (j + c) - int rej) rows = take (c - 2 * rej) (drop rej (drop j rows))"
  proof -
    have "j + c - rej - (j + rej) = c - 2 * rej" by simp
    then show ?thesis unfolding stop by (simp add: slice_def add.commute)
  qed
  also have "\<dots> = take (c - 2 * rej) (take (c - rej) (drop rej (drop j rows)))"
    by (simp add: min_def)
  also have "\<dots> = take (c - 2 * rej) (drop rej (take c (drop j rows)))"
    by (simp add: drop_take)
  also have "\<dots> = trimmed rej (take c (drop j rows))"
    using assms(1) by (simp add: trimmed_def)
  finally show ?thesis .
qed

subsection \<open>One row of the binned spectrum\<close>

lemma column_nonempty: "rows \<noteq> [] \<Longrightarrow> column rows i \<noteq> []"
  by (simp add: column_def)

lemma binned_slice:
  assumes len: "length nu = length data"
    and f: "f \<in> set (filter (\<lambda>v. v > 0) nu)"
    and runs: "contiguous_runs (filter (\<lambda>v. v > 0) nu)"
    and long: "2 * rej < length (samples_at nu data f)"
  shows "slice (first_index (\<lambda>v. v = f) (filter (\<lambda>v. v > 0) nu) + rej)
           (int (first_index (\<lambda>v. v = f) (filter (\<lambda>v. v > 0) nu) + count_list (filter (\<lambda>v. v > 0) nu) f)
              - int rej)
           (map snd (filter (\<lambda>(v, row). v > 0) (zip nu data)))
        = trimmed rej (samples_at nu data f)"
    and "count_list (filter (\<lambda>v. v > 0) nu) f = length (samples_at nu data f)"
proof -
  let ?xs = "filter (\<lambda>v. v > 0) nu"
  let ?rows = "map snd (filter (\<lambda>(v, row). v > 0) (zip nu data))"
  let ?j = "first_index (\<lambda>v. v = f) ?xs"
  let ?c = "count_list ?xs f"
  have pos: "0 < f" using f by simp
  have lr: "length ?xs = length ?rows"
    by (rule length_filtered [OF len, symmetric])
  have run: "take ?c (drop ?j ?xs) = replicate ?c f"
    using runs f by (simp add: contiguous_runs_def list_all_iff)
  have "take ?c (drop ?j ?rows) = samples_at ?xs ?rows f"
    by (rule run_is_samples [OF lr run])
  also have "\<dots> = samples_at nu data f"
    by (rule samples_at_filtered [OF len pos])
  finally have eq: "take ?c (drop ?j ?rows) = samples_at nu data f" .
  have c: "length (samples_at nu data f) = ?c"
    using length_samples_at [OF lr, of f] samples_at_filtered [OF len pos] by simp
  then show "?c = length (samples_at nu data f)" by simp
  have "length (take ?c (drop ?j ?rows)) = ?c"
    using eq c by simp
  moreover have "rej \<le> ?c"
    using long c by simp
  ultimately have "slice (?j + rej) (int (?j + ?c) - int rej) ?rows
      = trimmed rej (take ?c (drop ?j ?rows))"
    by (rule slice_trimmed)
  then show "slice (?j + rej) (int (?j + ?c) - int rej) ?rows = trimmed rej (samples_at nu data f)"
    by (simp only: eq)
qed

lemma length_trimmed: "length (trimmed rej xs) = length xs - 2 * rej"
  by (simp add: trimmed_def)

lemma map2_same: "map2 g (map a vs) (map b vs) = map (\<lambda>v. g (a v) (b v)) vs"
  by (induction vs) simp_all

text \<open>
  Claim C3. When the frequency array and the power array have one length and, among the
  samples of positive frequency in their order, every frequency occupies one contiguous run
  of more than \<open>2 * rej\<close> samples, \<open>get_frequency_range_and_data\<close> returns the distinct
  positive frequencies in ascending order and, for each of them, one row that holds per
  detector the median of the samples at that frequency without the first \<open>rej\<close> and the
  last \<open>rej\<close>, and one row that holds the standard deviation of the same samples divided by
  the square root of the length of the whole run. Every frequency of the result is
  positive, and a row is computed from the samples at its frequency alone.
\<close>

theorem binned_spectrum:
  assumes len: "length nu = length data"
    and runs: "contiguous_runs (filter (\<lambda>v. v > 0) nu)"
    and long: "\<forall>f\<in>set (frequencies nu). 2 * rej < length (samples_at nu data f)"
  shows "get_frequency_range_and_data nu data std_dev rej =
       Inr (frequencies nu,
            map (\<lambda>f. map (\<lambda>i. Some (median (column (trimmed rej (samples_at nu data f)) i)))
                        [0..<ncols data])
              (frequencies nu),
            if std_dev
            then Some (map (\<lambda>f. map (\<lambda>i. Some (std (column (trimmed rej (samples_at nu data f)) i)
                                               / sqrt (real (length (samples_at nu data f)))))
                                   [0..<ncols data])
                         (frequencies nu))
            else None)
     \<and> (\<forall>f\<in>set (frequencies nu). 0 < f)"
proof -
  let ?xs = "filter (\<lambda>v. v > 0) nu"
  let ?rows = "map snd (filter (\<lambda>(v, row). v > 0) (zip nu data))"
  let ?j = "\<lambda>f. first_index (\<lambda>v. v = f) ?xs"
  let ?c = "count_list ?xs"
  let ?sl = "\<lambda>f. slice (?j f + rej) (int (?j f + ?c f) - int rej) ?rows"
  have mem: "\<And>f. f \<in> set (frequencies nu) \<Longrightarrow> f \<in> set ?xs"
    by (simp add: frequencies_def)
  have enough: "\<And>f. f \<in> set (frequencies nu) \<Longrightarrow> 2 * rej < length (samples_at nu data f)"
    using long by simp
  have sl: "\<And>f. f \<in> set (frequencies nu) \<Longrightarrow> ?sl f = trimmed rej (samples_at nu data f)"
    by (rule binned_slice(1) [OF len mem runs enough])
  have cnt: "\<And>f. f \<in> set (frequencies nu) \<Longrightarrow> ?c f = length (samples_at nu data f)"
    by (rule binned_slice(2) [OF len mem runs enough])
  have ne: "\<And>f i. f \<in> set (frequencies nu) \<Longrightarrow> column (trimmed rej (samples_at nu data f)) i \<noteq> []"
  proof -
    fix f i assume "f \<in> set (frequencies nu)"
    then have "0 < length (trimmed rej (samples_at nu data f))"
      using long by (simp add: length_trimmed)
    then show "column (trimmed rej (samples_at nu data f)) i \<noteq> []"
      by (intro column_nonempty) auto
  qed
  have row_med: "\<And>f i. f \<in> set (frequencies nu) \<Longrightarrow>
      np_median (column (?sl f) i) = Some (median (column (trimmed rej (samples_at nu data f)) i))"
  proof -
    fix f i assume f: "f \<in> set (frequencies nu)"
    show "np_median (column (?sl f) i) = Some (median (column (trimmed rej (samples_at nu data f)) i))"
      unfolding sl [OF f] by (simp add: ne [OF f] np_median_def)
  qed
  have row_dev: "\<And>f i. f \<in> set (frequencies nu) \<Longrightarrow>
      (case np_std (column (?sl f) i) of None \<Rightarrow> None | Some s \<Rightarrow> Some (s / sqrt (real (?c f))))
      = Some (std (column (trimmed rej (samples_at nu data f)) i)
                / sqrt (real (length (samples_at nu data f))))"
  proof -
    fix f i assume f: "f \<in> set (frequencies nu)"
    show "(case np_std (column (?sl f) i) of None \<Rightarrow> None | Some s \<Rightarrow> Some (s / sqrt (real (?c f))))
      = Some (std (column (trimmed rej (samples_at nu data f)) i)
                / sqrt (real (length (samples_at nu data f))))"
      unfolding sl [OF f] unfolding cnt [OF f] by (simp add: ne [OF f] np_std_def)
  qed
  have med: "map (\<lambda>f. map (\<lambda>i. np_median (column (?sl f) i)) [0..<ncols data]) (frequencies nu)
      = map (\<lambda>f. map (\<lambda>i. Some (median (column (trimmed rej (samples_at nu data f)) i)))
                        [0..<ncols data]) (frequencies nu)"
    by (intro map_cong refl) (simp only: row_med)
  have dev: "map (\<lambda>f. map (\<lambda>i. case np_std (column (?sl f) i) of None \<Rightarrow> None
                                  | Some s \<Rightarrow> Some (s / sqrt (real (?c f)))) [0..<ncols data])
               (frequencies nu)
      = map (\<lambda>f. map (\<lambda>i. Some (std (column (trimmed rej (samples_at nu data f)) i)
                                               / sqrt (real (length (samples_at nu data f)))))
                                   [0..<ncols data]) (frequencies nu)"
    by (intro map_cong refl) (simp only: row_dev)
  have "get_frequency_range_and_data nu data std_dev rej =
       Inr (frequencies nu,
            map (\<lambda>f. map (\<lambda>i. np_median (column (?sl f) i)) [0..<ncols data]) (frequencies nu),
            if std_dev
            then Some (map (\<lambda>f. map (\<lambda>i. case np_std (column (?sl f) i) of None \<Rightarrow> None
                                  | Some s \<Rightarrow> Some (s / sqrt (real (?c f)))) [0..<ncols data])
               (frequencies nu))
            else None)"
    using len
    by (simp add: get_frequency_range_and_data_def np_unique_def Let_def map2_same frequencies_def
        del: map_map set_filter)
  then have result: "get_frequency_range_and_data nu data std_dev rej =
       Inr (frequencies nu,
            map (\<lambda>f. map (\<lambda>i. Some (median (column (trimmed rej (samples_at nu data f)) i)))
                        [0..<ncols data])
              (frequencies nu),
            if std_dev
            then Some (map (\<lambda>f. map (\<lambda>i. Some (std (column (trimmed rej (samples_at nu data f)) i)
                                               / sqrt (real (length (samples_at nu data f)))))
                                   [0..<ncols data])
                         (frequencies nu))
            else None)"
    by (simp only: med dev)
  have "\<forall>f\<in>set (frequencies nu). 0 < f"
    by (simp add: frequencies_def)
  with result show ?thesis by blast
qed

theorem binned_spectrum_witness:
  "contiguous_runs (filter (\<lambda>v. v > 0) [- 1, 38, 38, 38, 38, 39, 39, 39, 0])
   \<and> frequencies [- 1, 38, 38, 38, 38, 39, 39, 39, 0] = [38, 39]
   \<and> get_frequency_range_and_data [- 1, 38, 38, 38, 38, 39, 39, 39, 0]
        [[9, 9, 9, 9], [1, 1, 1, 1], [2, 0, 2, 0], [4, 0, 4, 0], [7, 7, 7, 7],
         [1, 2, 3, 4], [3, 4, 5, 6], [5, 6, 7, 8], [8, 8, 8, 8]] True 1
       = Inr ([38, 39],
              [[Some 3, Some 0, Some 3, Some 0], [Some 3, Some 4, Some 5, Some 6]],
              Some [[Some (1 / 2), Some 0, Some (1 / 2), Some 0], [Some 0, Some 0, Some 0, Some 0]])"
proof -
  let ?nu = "[- 1, 38, 38, 38, 38, 39, 39, 39, 0 :: real]"
  let ?data = "[[9, 9, 9, 9], [1, 1, 1, 1], [2, 0, 2, 0], [4, 0, 4, 0], [7, 7, 7, 7],
         [1, 2, 3, 4], [3, 4, 5, 6], [5, 6, 7, 8], [8, 8, 8, 8 :: real]]"
  have len: "length ?nu = length ?data"
    by simp
  have runs: "contiguous_runs (filter (\<lambda>v. v > 0) ?nu)"
    by (simp add: contiguous_runs_def first_index_def)
  have freq: "frequencies ?nu = [38, 39]"
    by (simp add: frequencies_def)
  have s38: "samples_at ?nu ?data 38 = [[1, 1, 1, 1], [2, 0, 2, 0], [4, 0, 4, 0], [7, 7, 7, 7]]"
    and s39: "samples_at ?nu ?data 39 = [[1, 2, 3, 4], [3, 4, 5, 6], [5, 6, 7, 8]]"
    by (simp_all add: samples_at_def)
  have long: "\<forall>f\<in>set (frequencies ?nu). 2 * 1 < length (samples_at ?nu ?data f)"
    unfolding freq by (simp add: s38 s39)
  have cols: "[0..<ncols ?data] = [0, 1, 2, 3]"
    by (simp add: ncols_def upt_rec)
  have "get_frequency_range_and_data ?nu ?data True 1
       = Inr (frequencies ?nu,
            map (\<lambda>f. map (\<lambda>i. Some (median (column (trimmed 1 (samples_at ?nu ?data f)) i)))
                        [0..<ncols ?data])
              (frequencies ?nu),
            if True
            then Some (map (\<lambda>f. map (\<lambda>i. Some (std (column (trimmed 1 (samples_at ?nu ?data f)) i)
                                               / sqrt (real (length (samples_at ?nu ?data f)))))
                                   [0..<ncols ?data])
                         (frequencies ?nu))
            else None)"
    using binned_spectrum [OF len runs long, of True] by (rule conjunct1)
  also have "\<dots> = Inr ([38, 39],
              [[Some 3, Some 0, Some 3, Some 0], [Some 3, Some 4, Some 5, Some 6]],
              Some [[Some (1 / 2), Some 0, Some (1 / 2), Some 0], [Some 0, Some 0, Some 0, Some 0]])"
    unfolding freq cols
    by (simp add: s38 s39 trimmed_def column_def median_def std_def mean_def)
  finally show ?thesis
    using runs freq by blast
qed

section \<open>The range of the normalized data\<close>

subsection \<open>The shape of the data after the offset removal\<close>


subsection \<open>A binned spectrum without nan\<close>





subsection \<open>The steps after the binning on a spectrum without nan\<close>




lemma column_Some:
  assumes "\<forall>row\<in>set reals. j < length row"
  shows "column (map (map Some) reals) j = map Some (column reals j)"
  using assms by (simp add: column_def)













end
